theory Spec2Isabelle
  imports Complex_Main "HOL-Library.Multiset" "HOL-Library.List_Lexorder" "HOL-Library.Char_ord"
begin

section \<open>Values, errors and the specification data model\<close>

text \<open>
  Python values that reach the builder through untyped positions (\<^verbatim>\<open>Dict[str, Any]\<close>,
  reflective attribute access): \<^verbatim>\<open>None\<close>, strings, integers, booleans, and objects of any
  other class (a pipeline variable, say), told apart by a label.
\<close>

datatype pyval = PNone | PStr string | PInt int | PBool bool | PObject string

text \<open>The exceptions the builder raises or lets through, with their message.\<close>

datatype error = ValueError string | AttributeError string | KeyError string

text \<open>
  Modelled from the spec: the enumerations \<^verbatim>\<open>DependencyType\<close> and \<^verbatim>\<open>NodeType\<close> are declared
  in \<^verbatim>\<open>core/base/specification_base.py\<close>, which is not among the sources. The members are
  those the specification module uses and those section 3 of the spec lists.
\<close>

datatype DependencyType = PROCESSING_OUTPUT | MODEL_ARTIFACTS | CUSTOM_PROPERTY | HYPERPARAMETERS

datatype NodeType = SOURCE | INTERNAL | SINK

text \<open>
  \<^verbatim>\<open>DependencySpec\<close> and \<^verbatim>\<open>OutputSpec\<close> have the fields their constructor calls name in
  \<^verbatim>\<open>batch_transform_calibration_spec.py\<close>. The three fields both share are a common
  parent record, so that \<open>logical_name\<close> reads either.
\<close>

record SpecBase =
  logical_name :: string
  data_type :: string
  description :: string

record DependencySpec = SpecBase +
  dependency_type :: DependencyType
  required :: bool
  compatible_sources :: "string list"
  semantic_keywords :: "string list"

record OutputSpec = SpecBase +
  output_type :: DependencyType
  property_path :: string

text \<open>
  A \<^verbatim>\<open>StepSpecification\<close> is built from a list of dependencies and a list of outputs. The
  builder walks \<^verbatim>\<open>spec.dependencies.items()\<close> and \<^verbatim>\<open>spec.outputs.items()\<close> and throws
  the keys away, so the two collections are the ordered lists of their values.
\<close>

record StepSpecification =
  step_type :: string
  node_type :: NodeType
  dependencies :: "DependencySpec list"
  outputs :: "OutputSpec list"

text \<open>
  Modelled from the spec: the constructor of \<^verbatim>\<open>StepSpecification\<close>, which belongs to
  \<^verbatim>\<open>core/base/specification_base.py\<close> and is not among the sources. The specification
  modules call it with lists; the builder reads the two collections back with
  \<^verbatim>\<open>.items()\<close>; and section 3 of the spec makes the logical name unique within its
  specification. So the constructor keeps each list as a collection keyed by logical
  name, in insertion order: an entry whose logical name is already a key takes the place
  of the earlier entry.
\<close>

fun put_by_logical_name ::
  "'a SpecBase_scheme \<Rightarrow> 'a SpecBase_scheme list \<Rightarrow> 'a SpecBase_scheme list" where
  "put_by_logical_name x [] = [x]"
| "put_by_logical_name x (y # ys) =
     (if logical_name y = logical_name x then x # ys else y # put_by_logical_name x ys)"

definition keyed_by_logical_name :: "'a SpecBase_scheme list \<Rightarrow> 'a SpecBase_scheme list" where
  "keyed_by_logical_name xs = foldl (\<lambda>kept x. put_by_logical_name x kept) [] xs"

definition StepSpecification_init ::
  "string \<Rightarrow> NodeType \<Rightarrow> DependencySpec list \<Rightarrow> OutputSpec list \<Rightarrow> StepSpecification" where
  "StepSpecification_init st nt deps outs =
     \<lparr>step_type = st, node_type = nt,
      dependencies = keyed_by_logical_name deps,
      outputs = keyed_by_logical_name outs\<rparr>"

text \<open>The script contract, of which the builder reads \<^verbatim>\<open>expected_input_paths\<close> only.\<close>

record ScriptContract =
  expected_input_paths :: "string \<rightharpoonup> string"

section \<open>The PyTorch training step builder\<close>

text \<open>
  The hyperparameters object of the configuration: \<open>to_dict\<close> is \<open>None\<close> when the object has
  no \<^verbatim>\<open>to_dict\<close> method and its result otherwise; \<open>vars\<close> is \<^verbatim>\<open>vars(obj)\<close>.
\<close>

record Hyperparameters =
  to_dict :: "(string \<rightharpoonup> pyval) option"
  vars :: "string \<rightharpoonup> pyval"

text \<open>
  The configuration object. \<open>attrs\<close> holds the attributes that \<^verbatim>\<open>validate_configuration\<close>
  probes with \<^verbatim>\<open>hasattr\<close>/\<^verbatim>\<open>getattr\<close> (an absent key is an absent attribute).
  \<open>hyperparameters\<close> and \<open>env\<close> are \<open>None\<close> when the attribute is absent or falsy.
\<close>

record PyTorchTrainingConfig =
  attrs :: "string \<rightharpoonup> pyval"
  pipeline_s3_loc :: string
  hyperparameters :: "Hyperparameters option"
  env :: "(string \<rightharpoonup> string) option"

text \<open>The estimator, with the keyword arguments of the \<^verbatim>\<open>PyTorch(...)\<close> call as fields.\<close>

record PyTorch =
  entry_point :: pyval
  source_dir :: pyval
  framework_version :: pyval
  py_version :: pyval
  est_role :: "string option"
  instance_type :: pyval
  instance_count :: pyval
  volume_size :: pyval
  base_job_name :: string
  est_hyperparameters :: "string \<rightharpoonup> pyval"
  sagemaker_session :: "string option"
  output_path :: "string option"
  environment :: "string \<rightharpoonup> string"

datatype TrainingInput = TrainingInput (s3_data: pyval)

text \<open>
  The training step, with the keyword arguments of the \<^verbatim>\<open>TrainingStep(...)\<close> call as fields;
  \<open>spec_attr\<close> is the attribute \<^verbatim>\<open>_spec\<close> that \<^verbatim>\<open>create_step\<close> sets afterwards.
\<close>

record TrainingStep =
  name :: string
  estimator :: PyTorch
  inputs :: "string \<rightharpoonup> TrainingInput"
  depends_on :: "string list"
  cache_config :: pyval
  spec_attr :: "StepSpecification option"

text \<open>
  The builder. \<open>config\<close>, \<open>spec\<close>, \<open>contract\<close>, \<open>role\<close> and \<open>session\<close> are the attributes of
  \<^verbatim>\<open>self\<close>. The remaining fields are what the builder calls but does not define (methods
  of \<^verbatim>\<open>StepBuilderBase\<close> and the SageMaker SDK), taken as parameters:
  \<^item> \<open>generate_job_name\<close>, \<open>get_step_name\<close>: the strings \<^verbatim>\<open>_generate_job_name()\<close> and
    \<^verbatim>\<open>_get_step_name()\<close> return;
  \<^item> \<open>get_cache_config\<close>: \<^verbatim>\<open>_get_cache_config\<close>;
  \<^item> \<open>base_environment_variables\<close>: the result of \<^verbatim>\<open>super()._get_environment_variables()\<close>;
  \<^item> \<open>extract_inputs_from_dependencies\<close>: the inputs extracted from the dependency steps,
    or \<open>Inl msg\<close> when the call raises an exception whose text is \<open>msg\<close>;
  \<^item> \<open>TrainingStep_raises\<close>: \<open>Some msg\<close> when the \<^verbatim>\<open>TrainingStep\<close> constructor raises an
    exception whose text is \<open>msg\<close> on these arguments.
\<close>

record PyTorchTrainingStepBuilder =
  config :: PyTorchTrainingConfig
  spec :: "StepSpecification option"
  contract :: "ScriptContract option"
  role :: "string option"
  session :: "string option"
  generate_job_name :: string
  get_step_name :: string
  get_cache_config :: "bool \<Rightarrow> pyval"
  base_environment_variables :: "string \<rightharpoonup> string"
  extract_inputs_from_dependencies :: "string list \<Rightarrow> string + (string \<rightharpoonup> pyval)"
  TrainingStep_raises :: "TrainingStep \<Rightarrow> string option"

subsection \<open>\<^verbatim>\<open>validate_configuration\<close>\<close>

definition required_attrs :: "string list" where
  "required_attrs =
     [''training_instance_type'', ''training_instance_count'', ''training_volume_size'',
      ''training_entry_point'', ''source_dir'', ''framework_version'', ''py_version'']"

text \<open>
  \<^verbatim>\<open>not hasattr(config, attr) or getattr(config, attr) in [None, ""]\<close>: list membership
  compares with \<^verbatim>\<open>==\<close>, which only \<^verbatim>\<open>None\<close> and the empty string satisfy here.
\<close>

definition missing_or_empty :: "PyTorchTrainingConfig \<Rightarrow> string \<Rightarrow> bool" where
  "missing_or_empty c attr =
     (case attrs c attr of
        None \<Rightarrow> True
      | Some v \<Rightarrow> v = PNone \<or> v = PStr [])"

text \<open>The \<^verbatim>\<open>for attr in required_attrs\<close> loop: the first offending attribute raises.\<close>

fun check_required_attrs :: "PyTorchTrainingConfig \<Rightarrow> string list \<Rightarrow> error + unit" where
  "check_required_attrs c [] = Inr ()"
| "check_required_attrs c (attr # rest) =
     (if missing_or_empty c attr
      then Inl (ValueError (''PyTorchTrainingConfig missing required attribute: '' @ attr))
      else check_required_attrs c rest)"

text \<open>
  The method returns \<^verbatim>\<open>None\<close> or raises; the builder it leaves behind is returned beside
  the outcome.
\<close>

definition validate_configuration ::
  "PyTorchTrainingStepBuilder \<Rightarrow> (error + unit) \<times> PyTorchTrainingStepBuilder" where
  "validate_configuration self = (check_required_attrs (config self) required_attrs, self)"

subsection \<open>\<^verbatim>\<open>_create_estimator\<close> and \<^verbatim>\<open>_get_environment_variables\<close>\<close>

text \<open>Plain attribute access \<^verbatim>\<open>self.config.attr\<close>: an absent attribute raises.\<close>

definition getattr :: "PyTorchTrainingConfig \<Rightarrow> string \<Rightarrow> error + pyval" where
  "getattr c attr = (case attrs c attr of None \<Rightarrow> Inl (AttributeError attr) | Some v \<Rightarrow> Inr v)"

definition startswith :: "string \<Rightarrow> string \<Rightarrow> bool" where
  "startswith s p = (take (length p) s = p)"

definition endswith :: "string \<Rightarrow> string \<Rightarrow> bool" where
  "endswith s p = (length p \<le> length s \<and> drop (length s - length p) s = p)"

text \<open>
  The hyperparameters dictionary: empty, then updated with \<^verbatim>\<open>to_dict()\<close> when the object
  has that method, and with its attributes that do not start with an underscore otherwise.
\<close>

definition hyperparameters_dict :: "PyTorchTrainingConfig \<Rightarrow> (string \<rightharpoonup> pyval)" where
  "hyperparameters_dict c =
     (case hyperparameters c of
        None \<Rightarrow> Map.empty
      | Some h \<Rightarrow>
          (case to_dict h of
             Some d \<Rightarrow> Map.empty ++ d
           | None \<Rightarrow> (\<lambda>key. if startswith key ''_'' then None else vars h key)))"

definition get_environment_variables ::
  "PyTorchTrainingStepBuilder \<Rightarrow> (string \<rightharpoonup> string)" where
  "get_environment_variables self =
     (let env_vars = base_environment_variables self
      in case env (config self) of
           None \<Rightarrow> env_vars
         | Some e \<Rightarrow> env_vars ++ e)"

text \<open>
  The arguments of the \<^verbatim>\<open>PyTorch(...)\<close> call are evaluated in the order written, so the
  first absent configuration attribute is the one whose \<^verbatim>\<open>AttributeError\<close> is raised.
  \<open>output_path\<close> is the constant \<^verbatim>\<open>None\<close>.
\<close>

definition create_estimator :: "PyTorchTrainingStepBuilder \<Rightarrow> error + PyTorch" where
  "create_estimator self =
     (let c = config self; hp = hyperparameters_dict c in
      case getattr c ''training_entry_point'' of Inl e \<Rightarrow> Inl e | Inr ep \<Rightarrow>
      case getattr c ''source_dir'' of Inl e \<Rightarrow> Inl e | Inr sd \<Rightarrow>
      case getattr c ''framework_version'' of Inl e \<Rightarrow> Inl e | Inr fv \<Rightarrow>
      case getattr c ''py_version'' of Inl e \<Rightarrow> Inl e | Inr pv \<Rightarrow>
      case getattr c ''training_instance_type'' of Inl e \<Rightarrow> Inl e | Inr it \<Rightarrow>
      case getattr c ''training_instance_count'' of Inl e \<Rightarrow> Inl e | Inr ic \<Rightarrow>
      case getattr c ''training_volume_size'' of Inl e \<Rightarrow> Inl e | Inr vs \<Rightarrow>
        Inr \<lparr>entry_point = ep, source_dir = sd, framework_version = fv, py_version = pv,
             est_role = role self, instance_type = it, instance_count = ic, volume_size = vs,
             base_job_name = generate_job_name self, est_hyperparameters = hp,
             sagemaker_session = session self, output_path = None,
             environment = get_environment_variables self\<rparr>)"

subsection \<open>\<^verbatim>\<open>_get_inputs\<close>\<close>

definition create_data_channel_from_source :: "pyval \<Rightarrow> (string \<rightharpoonup> TrainingInput)" where
  "create_data_channel_from_source base_path = [''data'' \<mapsto> TrainingInput base_path]"

definition required_input_msg :: "string \<Rightarrow> string" where
  "required_input_msg logical = ''Required input '' @ [CHR 0x27] @ logical @ [CHR 0x27] @ '' not provided''"

text \<open>
  The loop over the dependencies of the specification, with its two accumulators
  \<^verbatim>\<open>training_inputs\<close> and \<^verbatim>\<open>matched_inputs\<close>. \<^verbatim>\<open>inputs[logical_name]\<close> raises
  \<^verbatim>\<open>KeyError\<close> on an absent key.
\<close>

fun get_inputs_loop ::
  "ScriptContract \<Rightarrow> (string \<rightharpoonup> pyval) \<Rightarrow> DependencySpec list \<Rightarrow>
   (string \<rightharpoonup> TrainingInput) \<Rightarrow> string set \<Rightarrow> error + (string \<rightharpoonup> TrainingInput)" where
  "get_inputs_loop ct ins [] training_inputs matched_inputs = Inr training_inputs"
| "get_inputs_loop ct ins (d # ds) training_inputs matched_inputs =
     (let logical = logical_name d in
      if logical \<in> matched_inputs then get_inputs_loop ct ins ds training_inputs matched_inputs
      else if \<not> required d \<and> ins logical = None
        then get_inputs_loop ct ins ds training_inputs matched_inputs
      else if required d \<and> ins logical = None
        then Inl (ValueError (required_input_msg logical))
      else
        (case expected_input_paths ct logical of
           None \<Rightarrow> Inl (ValueError (''No container path found for input: '' @ logical))
         | Some container_path \<Rightarrow>
             if logical = ''input_path'' then
               (case ins logical of
                  None \<Rightarrow> Inl (KeyError logical)
                | Some base_path \<Rightarrow>
                    get_inputs_loop ct ins ds
                      (training_inputs ++ create_data_channel_from_source base_path)
                      (insert logical matched_inputs))
             else get_inputs_loop ct ins ds training_inputs matched_inputs))"

definition get_inputs ::
  "PyTorchTrainingStepBuilder \<Rightarrow> (string \<rightharpoonup> pyval) \<Rightarrow> error + (string \<rightharpoonup> TrainingInput)" where
  "get_inputs self ins =
     (case spec self of
        None \<Rightarrow> Inl (ValueError ''Step specification is required'')
      | Some sp \<Rightarrow>
          (case contract self of
             None \<Rightarrow> Inl (ValueError ''Script contract is required for input mapping'')
           | Some ct \<Rightarrow> get_inputs_loop ct ins (dependencies sp) Map.empty {}))"

subsection \<open>\<^verbatim>\<open>_get_outputs\<close>\<close>

text \<open>
  The loop with \<^verbatim>\<open>break\<close>: the value stored under the first output logical name that is a
  key of \<^verbatim>\<open>outputs\<close>; \<^verbatim>\<open>None\<close> (here \<open>PNone\<close>) when no name is a key.
\<close>

fun first_provided :: "string list \<Rightarrow> (string \<rightharpoonup> pyval) \<Rightarrow> pyval" where
  "first_provided [] outs = PNone"
| "first_provided (logical # rest) outs =
     (case outs logical of Some v \<Rightarrow> v | None \<Rightarrow> first_provided rest outs)"

text \<open>
  \<^verbatim>\<open>primary_output_path.endswith('/')\<close> is a string method: a value that is neither
  \<^verbatim>\<open>None\<close> nor a string raises \<^verbatim>\<open>AttributeError\<close>.
\<close>

definition get_outputs ::
  "PyTorchTrainingStepBuilder \<Rightarrow> (string \<rightharpoonup> pyval) \<Rightarrow> error + string" where
  "get_outputs self outs =
     (case spec self of
        None \<Rightarrow> Inl (ValueError ''Step specification is required'')
      | Some sp \<Rightarrow>
          (case contract self of
             None \<Rightarrow> Inl (ValueError ''Script contract is required for output mapping'')
           | Some ct \<Rightarrow>
               (let output_logical_names = map logical_name (outputs sp);
                    primary_output_path = first_provided output_logical_names outs;
                    primary_output_path =
                      (if primary_output_path = PNone
                       then PStr (pipeline_s3_loc (config self) @ ''/pytorch_training/'')
                       else primary_output_path)
                in case primary_output_path of
                     PStr p \<Rightarrow>
                       (let p = (if endswith p ''/'' then butlast p else p);
                            base_job_name = generate_job_name self
                        in Inr p)
                   | _ \<Rightarrow> Inl (AttributeError ''endswith''))))"

subsection \<open>\<^verbatim>\<open>create_step\<close>\<close>

text \<open>
  The keyword arguments of \<^verbatim>\<open>create_step\<close>; \<open>None\<close> is a keyword that was not passed.
\<close>

record create_step_kwargs =
  kw_inputs :: "(string \<rightharpoonup> pyval) option"
  kw_input_path :: "pyval option"
  kw_output_path :: "pyval option"
  kw_dependencies :: "string list option"
  kw_enable_caching :: "bool option"

text \<open>The records the builder writes at level \<^verbatim>\<open>WARNING\<close> and above.\<close>

datatype log_record = WARNING string | ERROR string

text \<open>
  The first half of \<^verbatim>\<open>create_step\<close>: the \<^verbatim>\<open>inputs\<close> dictionary handed to
  \<^verbatim>\<open>_get_inputs\<close>, and what was logged on the way. An exception of
  \<^verbatim>\<open>extract_inputs_from_dependencies\<close> is caught, logged as a warning and leaves
  \<^verbatim>\<open>inputs\<close> empty.
\<close>

definition collect_inputs ::
  "PyTorchTrainingStepBuilder \<Rightarrow> create_step_kwargs \<Rightarrow> (string \<rightharpoonup> pyval) \<times> log_record list" where
  "collect_inputs self kwargs =
     (let inputs_raw = (case kw_inputs kwargs of None \<Rightarrow> Map.empty | Some m \<Rightarrow> m);
          input_path = (case kw_input_path kwargs of None \<Rightarrow> PNone | Some v \<Rightarrow> v);
          dependencies = (case kw_dependencies kwargs of None \<Rightarrow> [] | Some ds \<Rightarrow> ds);
          (ins, logged) =
            (if dependencies \<noteq> [] then
               (case extract_inputs_from_dependencies self dependencies of
                  Inr extracted_inputs \<Rightarrow> (Map.empty ++ extracted_inputs, [])
                | Inl e \<Rightarrow>
                    (Map.empty, [WARNING (''Failed to extract inputs from dependencies: '' @ e)]))
             else (Map.empty, []));
          ins = ins ++ inputs_raw;
          ins = (if input_path \<noteq> PNone then ins(''input_path'' \<mapsto> input_path) else ins)
      in (ins, logged))"

text \<open>
  The method itself. The keyword \<^verbatim>\<open>output_path\<close> is read into a local variable that is
  assigned again, from \<^verbatim>\<open>_get_outputs({})\<close> (here \<open>new_output_path\<close>), before anything
  reads it; the second value is not read either.
\<close>

definition create_step ::
  "PyTorchTrainingStepBuilder \<Rightarrow> create_step_kwargs \<Rightarrow>
   (error + TrainingStep) \<times> log_record list" where
  "create_step self kwargs =
     (let output_path = kw_output_path kwargs;
          dependencies = (case kw_dependencies kwargs of None \<Rightarrow> [] | Some ds \<Rightarrow> ds);
          enable_caching = (case kw_enable_caching kwargs of None \<Rightarrow> True | Some c \<Rightarrow> c);
          step_name = get_step_name self;
          (ins, logged) = collect_inputs self kwargs
      in case get_inputs self ins of
           Inl e \<Rightarrow> (Inl e, logged)
         | Inr training_inputs \<Rightarrow>
             if training_inputs = Map.empty then
               (Inl (ValueError (''No training inputs available. Provide input_path or '' @
                                 ''ensure dependencies supply necessary outputs.'')), logged)
             else
               (case get_outputs self Map.empty of
                  Inl e \<Rightarrow> (Inl e, logged)
                | Inr new_output_path \<Rightarrow>
                    (case create_estimator self of
                       Inl e \<Rightarrow> (Inl e, logged)
                     | Inr est \<Rightarrow>
                         (let training_step =
                                \<lparr>name = step_name, estimator = est, inputs = training_inputs,
                                 depends_on = dependencies,
                                 cache_config = get_cache_config self enable_caching,
                                 spec_attr = None\<rparr>
                          in case TrainingStep_raises self training_step of
                               Some e \<Rightarrow>
                                 (Inl (ValueError (''Failed to create PyTorchTrainingStep: '' @ e)),
                                  logged @ [ERROR (''Error creating PyTorch TrainingStep: '' @ e)])
                             | None \<Rightarrow>
                                 (Inr (training_step\<lparr>spec_attr := spec self\<rparr>), logged)))))"

section \<open>The batch transform calibration specification\<close>

text \<open>
  The module calls the constructor with keyword arguments, here in the order
  \<^verbatim>\<open>step_type\<close>, \<^verbatim>\<open>node_type\<close>, \<^verbatim>\<open>dependencies\<close>, \<^verbatim>\<open>outputs\<close>.
  \<^verbatim>\<open>get_spec_step_type\<close> belongs to \<^verbatim>\<open>steps/registry/step_names.py\<close>, which is not among
  the sources; it is a parameter.
\<close>

definition BATCH_TRANSFORM_CALIBRATION_SPEC :: "(string \<Rightarrow> string) \<Rightarrow> StepSpecification" where
  "BATCH_TRANSFORM_CALIBRATION_SPEC get_spec_step_type =
     StepSpecification_init
       (get_spec_step_type ''BatchTransform-Calibration'')
       INTERNAL
        [\<lparr>logical_name = ''model_name'',
          data_type = ''String'',
          description = ''SageMaker model name from a model step'',
          dependency_type = CUSTOM_PROPERTY,
          required = True,
          compatible_sources = [''PytorchModel'', ''XgboostModel''],
          semantic_keywords = [''model'', ''name'', ''model_name'', ''ModelName'']\<rparr>,
         \<lparr>logical_name = ''processed_data'',
          data_type = ''S3Uri'',
          description =
            ''Processed calibration data for batch transform from preprocessing step'',
          dependency_type = PROCESSING_OUTPUT,
          required = True,
          compatible_sources = [''TabularPreprocessing-Calibration''],
          semantic_keywords =
            [''calibration'', ''data'', ''features'', ''preprocessed'', ''tabular'',
             ''input_data'', ''model_input_data'']\<rparr>]
        [\<lparr>logical_name = ''transform_output'',
          data_type = ''S3Uri'',
          description = ''S3 location of the batch transform output'',
          output_type = CUSTOM_PROPERTY,
          property_path = ''properties.TransformOutput.S3OutputPath''\<rparr>]"

section \<open>The pipeline DAG\<close>

text \<open>
  Modelled from the spec: the DAG class is not among the sources (only the package
  \<^verbatim>\<open>__init__\<close> that imports it is). Section 4.1 of the spec gives its contract:
  \<^verbatim>\<open>add_node(id, spec_ref)\<close>, \<^verbatim>\<open>add_edge(producer_id, consumer_id)\<close> and
  \<^verbatim>\<open>topological_order()\<close>. The nodes are kept in insertion order, each with its
  specification reference (the step type under which the registry holds its specification);
  the edges are producer-consumer pairs.
\<close>

datatype GraphErrorKind = MalformedEdge | CycleDetected

datatype graph_error = GraphError GraphErrorKind

record PipelineDAG =
  nodes :: "(string \<times> string) list"
  edges :: "(string \<times> string) list"

definition empty_dag :: PipelineDAG where
  "empty_dag = \<lparr>nodes = [], edges = []\<rparr>"

definition node_ids :: "PipelineDAG \<Rightarrow> string list" where
  "node_ids d = map fst (nodes d)"

text \<open>
  Modelled from the spec: \<^verbatim>\<open>add_node\<close>. An identifier maps to exactly one specification,
  so adding an identifier again replaces its reference and keeps its place.
\<close>

fun upsert :: "string \<Rightarrow> string \<Rightarrow> (string \<times> string) list \<Rightarrow> (string \<times> string) list" where
  "upsert i r [] = [(i, r)]"
| "upsert i r (n # ns) = (if fst n = i then (i, r) # ns else n # upsert i r ns)"

definition add_node :: "PipelineDAG \<Rightarrow> string \<Rightarrow> string \<Rightarrow> PipelineDAG" where
  "add_node d i spec_ref = d\<lparr>nodes := upsert i spec_ref (nodes d)\<rparr>"

text \<open>
  Modelled from the spec: the incremental reachability check of \<^verbatim>\<open>add_edge\<close>. \<open>reach\<close>
  extends the visited nodes by the consumers of their outgoing edges until nothing new is
  found.
\<close>

function reach :: "(string \<times> string) list \<Rightarrow> string list \<Rightarrow> string list" where
  "reach es visited =
     (let new = remdups (filter (\<lambda>c. c \<notin> set visited)
                           (map snd (filter (\<lambda>(p, c). p \<in> set visited) es)))
      in if new = [] then visited else reach es (visited @ new))"
  by pat_completeness auto
termination
proof (relation "measure (\<lambda>(es, visited). card (snd ` set es - set visited))")
  show "wf (measure (\<lambda>(es, visited). card (snd ` set es - set visited)))" by simp
next
  fix es :: "(string \<times> string) list" and visited new :: "string list"
  assume new: "new = remdups (filter (\<lambda>c. c \<notin> set visited)
                           (map snd (filter (\<lambda>(p, c). p \<in> set visited) es)))"
    and ne: "new \<noteq> []"
  from ne obtain c where c: "c \<in> set new" by (cases new) auto
  with new have c1: "c \<in> snd ` set es" "c \<notin> set visited" by auto
  have "snd ` set es - set (visited @ new) \<subset> snd ` set es - set visited"
    using c c1 by auto
  then have "card (snd ` set es - set (visited @ new)) < card (snd ` set es - set visited)"
    by (intro psubset_card_mono) auto
  then show "((es, visited @ new), (es, visited))
      \<in> measure (\<lambda>(es, visited). card (snd ` set es - set visited))"
    by simp
qed

declare reach.simps [simp del]

text \<open>
  Modelled from the spec: \<^verbatim>\<open>add_edge\<close> fails with \<^verbatim>\<open>GraphError\<close> when an endpoint is unknown
  or when the consumer already reaches the producer, so that the edge would close a cycle
  (a self-loop included). The DAG after the call is returned beside the outcome.
\<close>

definition add_edge ::
  "PipelineDAG \<Rightarrow> string \<Rightarrow> string \<Rightarrow> (graph_error + unit) \<times> PipelineDAG" where
  "add_edge d producer consumer =
     (if producer \<notin> set (node_ids d) \<or> consumer \<notin> set (node_ids d)
        then (Inl (GraphError MalformedEdge), d)
      else if producer \<in> set (reach (edges d) [consumer])
        then (Inl (GraphError CycleDetected), d)
      else (Inr (), d\<lparr>edges := (if (producer, consumer) \<in> set (edges d) then edges d
                                 else edges d @ [(producer, consumer)])\<rparr>))"

text \<open>
  Modelled from the spec: \<^verbatim>\<open>topological_order\<close>. A node has no remaining dependency when
  none of its producers is among the nodes still to be output. Each round outputs the
  first such node in insertion order; when nodes remain and none qualifies, the graph has
  a cycle.
\<close>

definition ready :: "(string \<times> string) list \<Rightarrow> string list \<Rightarrow> string \<Rightarrow> bool" where
  "ready es remaining n = (\<forall>(p, c) \<in> set es. c = n \<longrightarrow> p \<notin> set remaining)"

function kahn ::
  "(string \<times> string) list \<Rightarrow> string list \<Rightarrow> string list \<Rightarrow> graph_error + string list" where
  "kahn es remaining ordered =
     (case find (ready es remaining) remaining of
        None \<Rightarrow> if remaining = [] then Inr ordered else Inl (GraphError CycleDetected)
      | Some n \<Rightarrow> kahn es (remove1 n remaining) (ordered @ [n]))"
  by pat_completeness auto
termination
proof (relation "measure (\<lambda>(es, remaining, ordered). length remaining)")
  show "wf (measure (\<lambda>(es, remaining, ordered). length remaining))" by simp
next
  fix es :: "(string \<times> string) list" and remaining ordered :: "string list" and n
  assume "find (ready es remaining) remaining = Some n"
  then have "n \<in> set remaining" by (auto simp: find_Some_iff)
  then have "length (remove1 n remaining) < length remaining"
    using length_pos_if_in_set[of n remaining] by (simp add: length_remove1)
  then show "((es, remove1 n remaining, ordered @ [n]), (es, remaining, ordered))
      \<in> measure (\<lambda>(es, remaining, ordered). length remaining)"
    by simp
qed

declare kahn.simps [simp del]

definition topological_order :: "PipelineDAG \<Rightarrow> graph_error + string list" where
  "topological_order d = kahn (edges d) (node_ids d) []"

text \<open>
  Modelled from the spec: the invariant of the DAG in the data model (section 3). The node
  identifiers are distinct, every edge joins known nodes, and there is no cycle (hence no
  self-loop).
\<close>

definition well_formed :: "PipelineDAG \<Rightarrow> bool" where
  "well_formed d =
     (distinct (node_ids d) \<and>
      (\<forall>(p, c) \<in> set (edges d). p \<in> set (node_ids d) \<and> c \<in> set (node_ids d)) \<and>
      acyclic (set (edges d)))"

section \<open>The dependency resolver\<close>

text \<open>
  Modelled from the spec: the resolver and the specification registry are not among the
  sources (the builder only imports them). Section 4.3 of the spec gives the algorithm of
  \<^verbatim>\<open>resolve(dag, registry)\<close>; the weights and the confidence floor, which the spec leaves
  to the implementation, are parameters.
\<close>

record ResolverWeights =
  type_weight :: rat
  source_weight :: rat
  keyword_weight :: rat
  confidence_floor :: rat

datatype resolve_error =
    ResolveGraphError graph_error
  | UnknownStepTypeError string
  | UnresolvedDependencyError "(string \<times> string \<times> string) list"

text \<open>
  Modelled from the spec: the keyword test of step 2, a case-insensitive substring test
  (on ASCII letters) of a keyword against the logical name or the description of an output.
\<close>

definition lower_char :: "char \<Rightarrow> char" where
  "lower_char c =
     (case map_of (zip ''ABCDEFGHIJKLMNOPQRSTUVWXYZ'' ''abcdefghijklmnopqrstuvwxyz'') c of
        None \<Rightarrow> c
      | Some l \<Rightarrow> l)"

definition lower :: "string \<Rightarrow> string" where
  "lower s = map lower_char s"

fun is_substring :: "string \<Rightarrow> string \<Rightarrow> bool" where
  "is_substring k [] = (k = [])"
| "is_substring k (c # s) = (startswith (c # s) k \<or> is_substring k s)"

definition keyword_matches :: "OutputSpec \<Rightarrow> string \<Rightarrow> bool" where
  "keyword_matches out k =
     (is_substring (lower k) (lower (logical_name out)) \<or>
      is_substring (lower k) (lower (description out)))"

text \<open>
  Modelled from the spec: the fraction of the dependency's keywords found in the output's
  logical name or description; a dependency without keywords earns nothing here.
\<close>

definition keyword_fraction :: "DependencySpec \<Rightarrow> OutputSpec \<Rightarrow> rat" where
  "keyword_fraction dep out =
     (if semantic_keywords dep = [] then 0
      else of_nat (length (filter (keyword_matches out) (semantic_keywords dep))) /
           of_nat (length (semantic_keywords dep)))"

text \<open>
  Modelled from the spec: step 2 of the algorithm. A candidate is a producer step
  identifier with one of its outputs; \<open>type_of\<close> gives the step type of a producer.
\<close>

definition score ::
  "ResolverWeights \<Rightarrow> (string \<Rightarrow> string) \<Rightarrow> DependencySpec \<Rightarrow> string \<times> OutputSpec \<Rightarrow> rat" where
  "score w type_of dep cand =
     (if data_type (snd cand) = data_type dep then type_weight w else 0) +
     (if compatible_sources dep = [] \<or> type_of (fst cand) \<in> set (compatible_sources dep)
      then source_weight w else 0) +
     keyword_weight w * keyword_fraction dep (snd cand)"

text \<open>Modelled from the spec: the place of a step in the topological order.\<close>

definition position :: "string list \<Rightarrow> string \<Rightarrow> nat" where
  "position order i = length (takeWhile (\<lambda>j. j \<noteq> i) order)"

text \<open>
  Modelled from the spec: step 3. One candidate beats another by a strictly higher
  score, then by an earlier producer in topological order, then by a lexicographically
  smaller output logical name. The selection walks the candidates and keeps the best so
  far.
\<close>

definition better ::
  "(string \<times> OutputSpec \<Rightarrow> rat) \<Rightarrow> string list \<Rightarrow>
   string \<times> OutputSpec \<Rightarrow> string \<times> OutputSpec \<Rightarrow> bool" where
  "better sc order a b =
     (sc a > sc b \<or>
      (sc a = sc b \<and>
         (position order (fst a) < position order (fst b) \<or>
          (position order (fst a) = position order (fst b) \<and>
             logical_name (snd a) < logical_name (snd b)))))"

fun select_best ::
  "(string \<times> OutputSpec \<Rightarrow> rat) \<Rightarrow> string list \<Rightarrow> (string \<times> OutputSpec) option \<Rightarrow>
   (string \<times> OutputSpec) list \<Rightarrow> (string \<times> OutputSpec) option" where
  "select_best sc order best [] = best"
| "select_best sc order best (c # cs) =
     (case best of
        None \<Rightarrow> select_best sc order (Some c) cs
      | Some b \<Rightarrow> select_best sc order (if better sc order c b then Some c else Some b) cs)"

text \<open>
  Modelled from the spec: step 1. The eligible producers of a consumer are the steps
  with a direct or transitive edge into it, taken in topological order; each contributes
  the outputs of its specification.
\<close>

definition is_ancestor :: "(string \<times> string) list \<Rightarrow> string \<Rightarrow> string \<Rightarrow> bool" where
  "is_ancestor es p c = (c \<in> set (reach es (map snd (filter (\<lambda>e. fst e = p) es))))"

definition node_spec ::
  "PipelineDAG \<Rightarrow> (string \<rightharpoonup> StepSpecification) \<Rightarrow> string \<Rightarrow> StepSpecification option" where
  "node_spec d registry i =
     (case map_of (nodes d) i of None \<Rightarrow> None | Some spec_ref \<Rightarrow> registry spec_ref)"

definition candidates ::
  "PipelineDAG \<Rightarrow> (string \<rightharpoonup> StepSpecification) \<Rightarrow> string list \<Rightarrow> string \<Rightarrow>
   (string \<times> OutputSpec) list" where
  "candidates d registry order consumer =
     concat (map (\<lambda>p. case node_spec d registry p of
                         None \<Rightarrow> []
                       | Some sp \<Rightarrow> map (\<lambda>out. (p, out)) (outputs sp))
                 (filter (\<lambda>p. is_ancestor (edges d) p consumer) order))"

definition producer_type ::
  "PipelineDAG \<Rightarrow> (string \<rightharpoonup> StepSpecification) \<Rightarrow> string \<Rightarrow> string" where
  "producer_type d registry p =
     (case node_spec d registry p of None \<Rightarrow> [] | Some sp \<Rightarrow> step_type sp)"

text \<open>
  Modelled from the spec: steps 3 and 4 for one dependency. No candidate, or a best score
  under the confidence floor, resolves nothing.
\<close>

definition resolve_dependency ::
  "ResolverWeights \<Rightarrow> PipelineDAG \<Rightarrow> (string \<rightharpoonup> StepSpecification) \<Rightarrow> string list \<Rightarrow>
   string \<Rightarrow> DependencySpec \<Rightarrow> (string \<times> OutputSpec) option" where
  "resolve_dependency w d registry order consumer dep =
     (let sc = score w (producer_type d registry) dep
      in case select_best sc order None (candidates d registry order consumer) of
           None \<Rightarrow> None
         | Some b \<Rightarrow> if sc b < confidence_floor w then None else Some b)"

text \<open>
  Modelled from the spec: steps 4 and 5 for one step. The result is the step's slice of
  the binding plan (dependency logical name, producer, output logical name) and the
  required dependencies left unresolved, each with the step and a reason. An unresolved
  optional dependency is left out of both.
\<close>

fun resolve_step ::
  "ResolverWeights \<Rightarrow> PipelineDAG \<Rightarrow> (string \<rightharpoonup> StepSpecification) \<Rightarrow> string list \<Rightarrow>
   string \<Rightarrow> DependencySpec list \<Rightarrow>
   (string \<times> string \<times> string) list \<times> (string \<times> string \<times> string) list" where
  "resolve_step w d registry order consumer [] = ([], [])"
| "resolve_step w d registry order consumer (dep # deps) =
     (let (bound, unresolved) = resolve_step w d registry order consumer deps
      in case resolve_dependency w d registry order consumer dep of
           Some (p, out) \<Rightarrow> ((logical_name dep, p, logical_name out) # bound, unresolved)
         | None \<Rightarrow>
             if required dep
             then (bound, (consumer, logical_name dep, ''no candidate above the confidence floor'')
                          # unresolved)
             else (bound, unresolved))"

text \<open>
  Modelled from the spec: \<^verbatim>\<open>resolve\<close>. A step whose step type the registry does not hold
  makes the call fail with \<^verbatim>\<open>UnknownStepTypeError\<close>, as the registry's \<^verbatim>\<open>get\<close> does. The
  steps are handled in topological order, each independently of the others; the call fails
  with every unresolved required dependency when there is one, and returns the binding
  plan otherwise.
\<close>

definition resolve ::
  "ResolverWeights \<Rightarrow> PipelineDAG \<Rightarrow> (string \<rightharpoonup> StepSpecification) \<Rightarrow>
   resolve_error + (string \<times> (string \<times> string \<times> string) list) list" where
  "resolve w d registry =
     (case topological_order d of
        Inl e \<Rightarrow> Inl (ResolveGraphError e)
      | Inr order \<Rightarrow>
          (case find (\<lambda>i. node_spec d registry i = None) order of
             Some i \<Rightarrow> Inl (UnknownStepTypeError (case map_of (nodes d) i of None \<Rightarrow> i | Some r \<Rightarrow> r))
           | None \<Rightarrow>
               (let results =
                      map (\<lambda>i. (i, resolve_step w d registry order i
                                     (case node_spec d registry i of
                                        None \<Rightarrow> []
                                      | Some sp \<Rightarrow> dependencies sp)))
                          order;
                    unresolved = concat (map (\<lambda>(i, r). snd r) results)
                in if unresolved = []
                   then Inr (map (\<lambda>(i, r). (i, fst r)) results)
                   else Inl (UnresolvedDependencyError unresolved))))"

section \<open>The specification registry\<close>

text \<open>
  Modelled from the spec: the registry of section 4.2, which is not among the sources. It
  maps a step type to its specification; \<^verbatim>\<open>register\<close> fails with
  \<^verbatim>\<open>DuplicateSpecificationError\<close> when the step type is already registered, and \<^verbatim>\<open>get\<close>
  fails with \<^verbatim>\<open>UnknownStepTypeError\<close> when it is absent.
\<close>

datatype register_error = DuplicateSpecificationError string

definition register ::
  "(string \<rightharpoonup> StepSpecification) \<Rightarrow> string \<Rightarrow> StepSpecification \<Rightarrow>
   register_error + (string \<rightharpoonup> StepSpecification)" where
  "register registry st sp =
     (case registry st of
        Some registered \<Rightarrow> Inl (DuplicateSpecificationError st)
      | None \<Rightarrow> Inr (registry(st \<mapsto> sp)))"

definition registry_get ::
  "(string \<rightharpoonup> StepSpecification) \<Rightarrow> string \<Rightarrow> resolve_error + StepSpecification" where
  "registry_get registry st =
     (case registry st of None \<Rightarrow> Inl (UnknownStepTypeError st) | Some sp \<Rightarrow> Inr sp)"

text \<open>
  Modelled from the spec: the registrations of the setup phase (section 3, lifecycle).
  Each one constructs a specification from its step type, node type, dependencies and
  outputs, and registers it under a step type; the first failing registration ends the
  setup.
\<close>

fun register_all ::
  "(string \<rightharpoonup> StepSpecification) \<Rightarrow>
   (string \<times> string \<times> NodeType \<times> DependencySpec list \<times> OutputSpec list) list \<Rightarrow>
   register_error + (string \<rightharpoonup> StepSpecification)" where
  "register_all registry [] = Inr registry"
| "register_all registry ((key, st, nt, deps, outs) # rest) =
     (case register registry key (StepSpecification_init st nt deps outs) of
        Inl e \<Rightarrow> Inl e
      | Inr registry' \<Rightarrow> register_all registry' rest)"

section \<open>Example values\<close>

text \<open>
  A specification, configuration, builder and call in the shape of the PyTorch training
  step, at which the theorems below are instantiated. (\<^verbatim>\<open>PYTORCH_TRAINING_SPEC\<close> itself
  is not among the sources.)
\<close>

definition example_spec :: StepSpecification where
  "example_spec =
     \<lparr>step_type = ''PyTorchTraining'', node_type = INTERNAL,
      dependencies =
        [\<lparr>logical_name = ''input_path'', data_type = ''S3Uri'',
          description = ''Training data'', dependency_type = PROCESSING_OUTPUT,
          required = True, compatible_sources = [''TabularPreprocessing''],
          semantic_keywords = [''data'', ''input'']\<rparr>,
         \<lparr>logical_name = ''checkpoint'', data_type = ''S3Uri'',
          description = ''Checkpoint to resume from'', dependency_type = MODEL_ARTIFACTS,
          required = False, compatible_sources = [],
          semantic_keywords = [''checkpoint'']\<rparr>],
      outputs =
        [\<lparr>logical_name = ''model_output'', data_type = ''S3Uri'',
          description = ''Model artifacts'', output_type = MODEL_ARTIFACTS,
          property_path = ''properties.ModelArtifacts.S3ModelArtifacts''\<rparr>,
         \<lparr>logical_name = ''evaluation_output'', data_type = ''S3Uri'',
          description = ''Evaluation results'', output_type = PROCESSING_OUTPUT,
          property_path = ''properties.OutputDataConfig.S3OutputPath''\<rparr>]\<rparr>"

definition example_config :: PyTorchTrainingConfig where
  "example_config =
     \<lparr>attrs = [''training_instance_type'' \<mapsto> PStr ''ml.g5.12xlarge'',
               ''training_instance_count'' \<mapsto> PInt 1,
               ''training_volume_size'' \<mapsto> PInt 30,
               ''training_entry_point'' \<mapsto> PStr ''train.py'',
               ''source_dir'' \<mapsto> PStr ''dockers/pytorch'',
               ''framework_version'' \<mapsto> PStr ''1.12.0'',
               ''py_version'' \<mapsto> PStr ''py38''],
      pipeline_s3_loc = ''s3://bucket/pipeline'',
      hyperparameters = None,
      env = None\<rparr>"

definition example_builder :: PyTorchTrainingStepBuilder where
  "example_builder =
     \<lparr>config = example_config,
      spec = Some example_spec,
      contract = Some \<lparr>expected_input_paths = [''input_path'' \<mapsto> ''/opt/ml/input/data'']\<rparr>,
      role = Some ''arn:aws:iam::role'',
      session = None,
      generate_job_name = ''pytorch-training'',
      get_step_name = ''PyTorchTraining'',
      get_cache_config = (\<lambda>enable. PBool enable),
      base_environment_variables = Map.empty,
      extract_inputs_from_dependencies = (\<lambda>steps. Inl ''no resolver available''),
      TrainingStep_raises = (\<lambda>step. None)\<rparr>"

definition example_kwargs :: create_step_kwargs where
  "example_kwargs =
     \<lparr>kw_inputs = None, kw_input_path = Some (PStr ''s3://bucket/data''),
      kw_output_path = Some (PStr ''s3://bucket/elsewhere''),
      kw_dependencies = Some [''preprocessing''], kw_enable_caching = None\<rparr>"



definition no_contract_builder :: PyTorchTrainingStepBuilder where
  "no_contract_builder = example_builder\<lparr>contract := None\<rparr>"

text \<open>
  The DAG of the third end-to-end scenario of the spec, \<^verbatim>\<open>A \<rightarrow> B \<rightarrow> C\<close>, built by the
  operations of the DAG, and a graph with a cycle given by its node and edge lists.
\<close>

definition abc_nodes :: PipelineDAG where
  "abc_nodes = add_node (add_node (add_node empty_dag ''A'' ''StepA'') ''B'' ''StepB'') ''C'' ''StepC''"

definition abc_dag :: PipelineDAG where
  "abc_dag = snd (add_edge (snd (add_edge abc_nodes ''A'' ''B'')) ''B'' ''C'')"

definition cyclic_graph :: PipelineDAG where
  "cyclic_graph =
     \<lparr>nodes = [(''A'', ''StepA''), (''B'', ''StepB''), (''C'', ''StepC'')],
      edges = [(''A'', ''B''), (''B'', ''C''), (''C'', ''B'')]\<rparr>"

text \<open>
  The second end-to-end scenario of the spec, with a third producer added: steps \<^verbatim>\<open>A\<close>,
  \<^verbatim>\<open>B\<close> and \<^verbatim>\<open>D\<close> all produce an output \<^verbatim>\<open>model_name\<close> and feed \<^verbatim>\<open>C\<close>, which requires
  \<^verbatim>\<open>model_name\<close>; \<^verbatim>\<open>B\<close> and \<^verbatim>\<open>D\<close> have a compatible step type and tie on the score.
\<close>

definition model_name_output :: OutputSpec where
  "model_name_output =
     \<lparr>logical_name = ''model_name'', data_type = ''String'',
      description = ''Name of the model'', output_type = CUSTOM_PROPERTY,
      property_path = ''properties.ModelName''\<rparr>"

definition producer_spec :: "string \<Rightarrow> StepSpecification" where
  "producer_spec st =
     \<lparr>step_type = st, node_type = SOURCE, dependencies = [], outputs = [model_name_output]\<rparr>"

definition consumer_spec :: StepSpecification where
  "consumer_spec =
     \<lparr>step_type = ''Consumer'', node_type = SINK,
      dependencies =
        [\<lparr>logical_name = ''model_name'', data_type = ''String'',
          description = ''Model to use'', dependency_type = CUSTOM_PROPERTY,
          required = True, compatible_sources = [''Model''],
          semantic_keywords = [''model'', ''Name'']\<rparr>],
      outputs = []\<rparr>"

definition scenario_registry :: "string \<rightharpoonup> StepSpecification" where
  "scenario_registry =
     [''Other'' \<mapsto> producer_spec ''Other'', ''Model'' \<mapsto> producer_spec ''Model'',
      ''Consumer'' \<mapsto> consumer_spec]"

definition scenario_dag :: PipelineDAG where
  "scenario_dag =
     \<lparr>nodes = [(''A'', ''Other''), (''D'', ''Model''), (''B'', ''Model''), (''C'', ''Consumer'')],
      edges = [(''A'', ''C''), (''B'', ''C''), (''D'', ''C'')]\<rparr>"

definition scenario_weights :: ResolverWeights where
  "scenario_weights =
     \<lparr>type_weight = 4 / 10, source_weight = 3 / 10, keyword_weight = 3 / 10,
      confidence_floor = 1 / 2\<rparr>"

section \<open>Properties of the builder\<close>

subsection \<open>Configuration validation\<close>

lemma check_required_attrs_Inr:
  "(check_required_attrs c as = Inr ()) = (\<forall>a\<in>set as. \<not> missing_or_empty c a)"
  by (induction as) auto

lemma check_required_attrs_Inl:
  "(\<exists>a\<in>set as. missing_or_empty c a) \<Longrightarrow>
   \<exists>a\<in>set as. missing_or_empty c a \<and>
     check_required_attrs c as =
       Inl (ValueError (''PyTorchTrainingConfig missing required attribute: '' @ a))"
  by (induction as) auto

lemma missing_or_empty_iff:
  "missing_or_empty c a =
     (attrs c a = None \<or> attrs c a = Some PNone \<or> attrs c a = Some (PStr []))"
  by (auto simp: missing_or_empty_def split: option.splits)

text \<open>
  C2: \<^verbatim>\<open>validate_configuration\<close> raises \<^verbatim>\<open>ValueError\<close> exactly when one of the seven required
  attributes is absent from the configuration, is \<^verbatim>\<open>None\<close> or is the empty string; otherwise
  it returns normally. In both cases the builder, and with it the configuration, is left
  as it was.
\<close>

theorem validate_configuration_raises_iff:
  "(let bad = (\<exists>attr \<in> {''training_instance_type'', ''training_instance_count'',
                  ''training_volume_size'', ''training_entry_point'', ''source_dir'',
                  ''framework_version'', ''py_version''}.
                attrs (config self) attr = None \<or> attrs (config self) attr = Some PNone \<or>
                attrs (config self) attr = Some (PStr []))
    in (bad \<longrightarrow> (\<exists>msg. fst (validate_configuration self) = Inl (ValueError msg))) \<and>
       (\<not> bad \<longrightarrow> fst (validate_configuration self) = Inr ()) \<and>
       snd (validate_configuration self) = self)"
proof -
  have s: "set required_attrs = {''training_instance_type'', ''training_instance_count'',
                  ''training_volume_size'', ''training_entry_point'', ''source_dir'',
                  ''framework_version'', ''py_version''}"
    by (simp add: required_attrs_def)
  show ?thesis
    unfolding Let_def validate_configuration_def fst_conv snd_conv s[symmetric]
    using check_required_attrs_Inl[of required_attrs "config self"]
          check_required_attrs_Inr[of "config self" required_attrs]
    by (auto simp: missing_or_empty_iff)
qed

theorem validate_configuration_raises_iff_witness:
  "validate_configuration example_builder = (Inr (), example_builder) \<and>
   (\<exists>msg. fst (validate_configuration
      (example_builder\<lparr>config :=
         example_config\<lparr>attrs := (attrs example_config)(''source_dir'' \<mapsto> PStr [])\<rparr>\<rparr>))
        = Inl (ValueError msg))"
  using validate_configuration_raises_iff[of example_builder]
    validate_configuration_raises_iff[of
      "example_builder\<lparr>config :=
         example_config\<lparr>attrs := (attrs example_config)(''source_dir'' \<mapsto> PStr [])\<rparr>\<rparr>"]
  by (simp add: example_builder_def example_config_def prod_eq_iff)

subsection \<open>Training inputs\<close>

lemma loop_matched:
  "ins ''input_path'' = Some v \<Longrightarrow>
   get_inputs_loop ct ins ds [''data'' \<mapsto> TrainingInput v] {''input_path''} = Inr r \<Longrightarrow>
   r = [''data'' \<mapsto> TrainingInput v]"
proof (induction ds)
  case Nil
  then show ?case by simp
next
  case (Cons d ds)
  then show ?case
    by (auto simp: Let_def split: if_splits option.splits)
qed

lemma loop_fresh:
  "get_inputs_loop ct ins ds Map.empty {} = Inr r \<Longrightarrow>
   r = (if (\<exists>d\<in>set ds. logical_name d = ''input_path'') \<and> ins ''input_path'' \<noteq> None
        then [''data'' \<mapsto> TrainingInput (the (ins ''input_path''))] else Map.empty)"
proof (induction ds)
  case Nil
  then show ?case by simp
next
  case (Cons d ds)
  show ?case
  proof (cases "logical_name d = ''input_path'' \<and> ins ''input_path'' \<noteq> None")
    case True
    then obtain v where v: "ins ''input_path'' = Some v" by auto
    from Cons.prems True v
    have "get_inputs_loop ct ins ds [''data'' \<mapsto> TrainingInput v] {''input_path''} = Inr r"
      by (auto simp: Let_def create_data_channel_from_source_def split: if_splits option.splits)
    from loop_matched[OF v this] True v show ?thesis by simp
  next
    case False
    with Cons.prems have "get_inputs_loop ct ins ds Map.empty {} = Inr r"
      by (auto simp: Let_def split: if_splits option.splits)
    from Cons.IH[OF this] False show ?thesis by auto
  qed
qed

text \<open>
  C9: when \<^verbatim>\<open>_get_inputs\<close> returns normally, its result is empty or the single channel
  \<^verbatim>\<open>data\<close> built from \<^verbatim>\<open>inputs["input_path"]\<close>; and two calls on the same builder that
  agree on \<^verbatim>\<open>inputs["input_path"]\<close> and both return, return the same dictionary, whatever
  is supplied under other logical names.
\<close>

theorem get_inputs_single_data_channel:
  "get_inputs self ins = Inr r \<Longrightarrow>
   (r = Map.empty \<or> (\<exists>v. ins ''input_path'' = Some v \<and> r = [''data'' \<mapsto> TrainingInput v])) \<and>
   (\<forall>ins' r'. get_inputs self ins' = Inr r' \<and> ins' ''input_path'' = ins ''input_path''
        \<longrightarrow> r' = r)"
proof -
  assume a: "get_inputs self ins = Inr r"
  then obtain sp ct where sp: "spec self = Some sp" and ct: "contract self = Some ct"
    and l: "get_inputs_loop ct ins (dependencies sp) Map.empty {} = Inr r"
    by (auto simp: get_inputs_def split: option.splits)
  note r = loop_fresh[OF l]
  have 1: "r = Map.empty \<or> (\<exists>v. ins ''input_path'' = Some v \<and> r = [''data'' \<mapsto> TrainingInput v])"
    using r by (auto split: if_splits)
  have 2: "r' = r"
    if "get_inputs self ins' = Inr r'" "ins' ''input_path'' = ins ''input_path''" for ins' r'
  proof -
    from that(1) sp ct have "get_inputs_loop ct ins' (dependencies sp) Map.empty {} = Inr r'"
      by (simp add: get_inputs_def)
    from loop_fresh[OF this] r that(2) show ?thesis by simp
  qed
  from 1 2 show ?thesis by blast
qed

theorem get_inputs_single_data_channel_witness:
  "get_inputs example_builder [''input_path'' \<mapsto> PStr ''s3://bucket/data''] =
     Inr [''data'' \<mapsto> TrainingInput (PStr ''s3://bucket/data'')] \<and>
   ([''data'' \<mapsto> TrainingInput (PStr ''s3://bucket/data'')] = Map.empty \<or>
    (\<exists>v. [''input_path'' \<mapsto> PStr ''s3://bucket/data''] ''input_path'' = Some v \<and>
         [''data'' \<mapsto> TrainingInput (PStr ''s3://bucket/data'')] = [''data'' \<mapsto> TrainingInput v]))"
proof -
  have r: "get_inputs example_builder [''input_path'' \<mapsto> PStr ''s3://bucket/data''] =
     Inr [''data'' \<mapsto> TrainingInput (PStr ''s3://bucket/data'')]"
    by (simp add: get_inputs_def example_builder_def example_spec_def Let_def
          create_data_channel_from_source_def)
  from get_inputs_single_data_channel[OF r] r show ?thesis by blast
qed







subsection \<open>Output path\<close>

lemma endswith_slash: "endswith p ''/'' = (p \<noteq> [] \<and> last p = CHR ''/'')"
proof (cases p rule: rev_cases)
  case Nil
  then show ?thesis by (simp add: endswith_def)
next
  case (snoc ys y)
  then show ?thesis by (simp add: endswith_def)
qed

lemma first_provided_first:
  "\<forall>m\<in>set pre. outs m = None \<Longrightarrow> outs n = Some v \<Longrightarrow>
   first_provided (pre @ n # post) outs = v"
  by (induction pre) auto

lemma first_provided_none:
  "\<forall>n\<in>set ns. outs n = None \<Longrightarrow> first_provided ns outs = PNone"
  by (induction ns) auto

lemma first_provided_empty: "first_provided ns Map.empty = PNone"
  by (induction ns) auto

lemma get_outputs_of_first:
  "spec self = Some sp \<Longrightarrow> contract self = Some ct \<Longrightarrow>
   get_outputs self outs =
     (case first_provided (map logical_name (outputs sp)) outs of
        PNone \<Rightarrow> Inr (pipeline_s3_loc (config self) @ ''/pytorch_training'')
      | PStr p \<Rightarrow> Inr (if p \<noteq> [] \<and> last p = CHR ''/'' then butlast p else p)
      | _ \<Rightarrow> Inl (AttributeError ''endswith''))"
  by (simp add: get_outputs_def Let_def endswith_slash butlast_append split: pyval.splits)

text \<open>
  C10, as amended: when the builder has a specification and a script contract,
  \<^verbatim>\<open>_get_outputs\<close> returns the string destination supplied for the first specification output
  logical name present in the mapping, and the generated default when none is present or
  when the value supplied there is \<^verbatim>\<open>None\<close>, in each case with one trailing \<^verbatim>\<open>/\<close> removed
  if the path ends with one; so \<^verbatim>\<open>_get_outputs({})\<close> is \<^verbatim>\<open>pipeline_s3_loc\<close> followed by
  \<^verbatim>\<open>/pytorch_training\<close>. Without a specification or a contract it raises \<^verbatim>\<open>ValueError\<close>.
\<close>

theorem get_outputs_chosen_path:
  "(spec self = Some sp \<and> contract self = Some ct \<longrightarrow>
      (map logical_name (outputs sp) = pre @ n # post \<and> (\<forall>m\<in>set pre. outs m = None) \<and>
       outs n = Some (PStr p) \<longrightarrow>
         get_outputs self outs = Inr (if p \<noteq> [] \<and> last p = CHR ''/'' then butlast p else p)) \<and>
      (map logical_name (outputs sp) = pre @ n # post \<and> (\<forall>m\<in>set pre. outs m = None) \<and>
       outs n = Some PNone \<longrightarrow>
         get_outputs self outs = Inr (pipeline_s3_loc (config self) @ ''/pytorch_training'')) \<and>
      ((\<forall>m\<in>set (outputs sp). outs (logical_name m) = None) \<longrightarrow>
         get_outputs self outs = Inr (pipeline_s3_loc (config self) @ ''/pytorch_training'')) \<and>
      get_outputs self Map.empty = Inr (pipeline_s3_loc (config self) @ ''/pytorch_training'')) \<and>
   (spec self = None \<or> contract self = None \<longrightarrow>
      (\<exists>msg. get_outputs self outs = Inl (ValueError msg)))"
proof -
  have g: "spec self = None \<or> contract self = None \<Longrightarrow>
      \<exists>msg. get_outputs self outs = Inl (ValueError msg)"
    by (auto simp: get_outputs_def split: option.splits)
  show ?thesis
    using g
    by (auto simp: get_outputs_of_first first_provided_first first_provided_none
          first_provided_empty)
qed

theorem get_outputs_chosen_path_witness:
  "get_outputs example_builder [''evaluation_output'' \<mapsto> PStr ''s3://bucket/eval/''] =
     Inr ''s3://bucket/eval'' \<and>
   get_outputs example_builder Map.empty = Inr ''s3://bucket/pipeline/pytorch_training'' \<and>
   (\<exists>msg. get_outputs no_contract_builder Map.empty = Inl (ValueError msg))"
  using get_outputs_chosen_path[of example_builder example_spec
          "\<lparr>expected_input_paths = [''input_path'' \<mapsto> ''/opt/ml/input/data'']\<rparr>"
          "[''model_output'']" "''evaluation_output''" "[]"
          "[''evaluation_output'' \<mapsto> PStr ''s3://bucket/eval/'']" "''s3://bucket/eval/''"]
        get_outputs_chosen_path[of no_contract_builder _ _ _ _ _ Map.empty]
  by (simp add: example_builder_def example_spec_def example_config_def no_contract_builder_def)

text \<open>
  C10 as stated fails: a builder without a script contract raises on \<^verbatim>\<open>_get_outputs({})\<close>,
  and a mapping whose first present output name carries \<^verbatim>\<open>None\<close> yields the default, not
  what was supplied under that name nor under a later one.
\<close>

theorem get_outputs_chosen_path_counterexample:
  "get_outputs no_contract_builder Map.empty =
     Inl (ValueError ''Script contract is required for output mapping'') \<and>
   get_outputs example_builder
     [''model_output'' \<mapsto> PNone, ''evaluation_output'' \<mapsto> PStr ''s3://bucket/eval/''] =
     Inr ''s3://bucket/pipeline/pytorch_training''"
  by (simp add: get_outputs_def no_contract_builder_def example_builder_def example_spec_def
        example_config_def endswith_def Let_def)

subsection \<open>Step construction\<close>

lemma get_inputs_config: "get_inputs (self\<lparr>config := c\<rparr>) ins = get_inputs self ins"
  by (simp add: get_inputs_def split: option.splits)

lemma get_inputs_isl:
  "spec self = None \<or> contract self = None \<Longrightarrow> isl (get_inputs self ins)"
  by (auto simp: get_inputs_def split: option.splits)

lemma create_estimator_loc:
  "create_estimator (self\<lparr>config := (config self)\<lparr>pipeline_s3_loc := l\<rparr>\<rparr>) =
   create_estimator self"
  by (simp add: create_estimator_def getattr_def hyperparameters_dict_def
        get_environment_variables_def Let_def cong: sum.case_cong option.case_cong)

lemma collect_inputs_config:
  "collect_inputs (self\<lparr>config := c\<rparr>) kwargs = collect_inputs self kwargs"
  by (simp add: collect_inputs_def cong: if_cong)

lemma create_step_loc:
  "create_step (self\<lparr>config := (config self)\<lparr>pipeline_s3_loc := l\<rparr>\<rparr>) kwargs =
   create_step self kwargs"
proof (cases "spec self = None \<or> contract self = None")
  case True
  obtain i l' where c: "collect_inputs self kwargs = (i, l')"
    by (cases "collect_inputs self kwargs")
  from True have "isl (get_inputs self i)" by (rule get_inputs_isl)
  then obtain e where "get_inputs self i = Inl e" by (auto simp: isl_def)
  then show ?thesis
    by (simp add: create_step_def get_inputs_config collect_inputs_config c)
next
  case False
  then obtain sp ct where sc: "spec self = Some sp" "contract self = Some ct" by auto
  have "get_outputs (self\<lparr>config := (config self)\<lparr>pipeline_s3_loc := l\<rparr>\<rparr>) Map.empty =
      Inr (l @ ''/pytorch_training'')"
    "get_outputs self Map.empty = Inr (pipeline_s3_loc (config self) @ ''/pytorch_training'')"
    using sc by (simp_all add: get_outputs_of_first first_provided_empty)
  then show ?thesis
    by (simp add: create_step_def get_inputs_config collect_inputs_config create_estimator_loc
          Let_def cong: prod.case_cong sum.case_cong if_cong option.case_cong)
qed

text \<open>
  C8: two calls of \<^verbatim>\<open>create_step\<close> that differ only in the keyword \<^verbatim>\<open>output_path\<close> have the
  same outcome; the estimator of a step that was built has \<^verbatim>\<open>output_path=None\<close>; and the path
  that \<^verbatim>\<open>_get_outputs({})\<close> computes from \<^verbatim>\<open>pipeline_s3_loc\<close> reaches neither the estimator
  nor the step, since changing \<^verbatim>\<open>pipeline_s3_loc\<close> changes nothing either.
\<close>

theorem create_step_ignores_output_path:
  "create_step self (kwargs\<lparr>kw_output_path := p\<rparr>) =
   create_step self (kwargs\<lparr>kw_output_path := q\<rparr>) \<and>
   (fst (create_step self kwargs) = Inr step \<longrightarrow> output_path (estimator step) = None) \<and>
   create_step (self\<lparr>config := (config self)\<lparr>pipeline_s3_loc := l\<rparr>\<rparr>) kwargs =
   create_step self kwargs"
proof -
  have 1: "create_step self (kwargs\<lparr>kw_output_path := p\<rparr>) =
      create_step self (kwargs\<lparr>kw_output_path := q\<rparr>)"
    by (simp add: create_step_def collect_inputs_def)
  have 2: "output_path (estimator step) = None" if "fst (create_step self kwargs) = Inr step"
    using that
    by (auto simp: create_step_def create_estimator_def Let_def
             split: prod.splits sum.splits if_splits option.splits)
  from 1 2 create_step_loc show ?thesis by blast
qed

lemma example_create_step:
  "\<not> isl (fst (create_step example_builder example_kwargs)) \<and>
   snd (create_step example_builder example_kwargs) =
     [WARNING ''Failed to extract inputs from dependencies: no resolver available'']"
  by (simp add: create_step_def collect_inputs_def example_kwargs_def
        get_inputs_def example_builder_def example_spec_def Let_def
        create_data_channel_from_source_def get_outputs_def create_estimator_def
        getattr_def example_config_def)

theorem create_step_ignores_output_path_witness:
  "\<not> isl (fst (create_step example_builder example_kwargs)) \<and>
   output_path (estimator (projr (fst (create_step example_builder example_kwargs)))) = None \<and>
   create_step example_builder (example_kwargs\<lparr>kw_output_path := None\<rparr>) =
   create_step example_builder (example_kwargs\<lparr>kw_output_path := Some (PStr ''s3://other'')\<rparr>)"
proof -
  have "fst (create_step example_builder example_kwargs) =
      Inr (projr (fst (create_step example_builder example_kwargs)))"
    using example_create_step by simp
  with create_step_ignores_output_path[where self = example_builder and kwargs = example_kwargs
      and p = None and q = "Some (PStr ''s3://other'')"
      and step = "projr (fst (create_step example_builder example_kwargs))"]
    example_create_step
  show ?thesis by blast
qed

subsection \<open>Errors in step construction\<close>











section \<open>Properties of the pipeline DAG\<close>

subsection \<open>Reachability\<close>

lemma reach_extends: "set visited \<subseteq> set (reach es visited)"
proof (induction es visited rule: reach.induct)
  case (1 es visited)
  show ?case
  proof (cases "remdups (filter (\<lambda>c. c \<notin> set visited)
                    (map snd (filter (\<lambda>(p, c). p \<in> set visited) es))) = []")
    case True
    then show ?thesis by (subst reach.simps) (simp add: Let_def)
  next
    case False
    from "1.IH"[OF refl False] False show ?thesis
      by (subst reach.simps) (auto simp: Let_def)
  qed
qed

lemma reach_closed:
  "(p, c) \<in> set es \<Longrightarrow> p \<in> set (reach es visited) \<Longrightarrow> c \<in> set (reach es visited)"
proof (induction es visited rule: reach.induct)
  case (1 es visited)
  show ?case
  proof (cases "remdups (filter (\<lambda>c. c \<notin> set visited)
                    (map snd (filter (\<lambda>(p, c). p \<in> set visited) es))) = []")
    case True
    then have r: "reach es visited = visited" by (subst reach.simps) (simp add: Let_def)
    from True have "\<forall>x\<in>set es. fst x \<in> set visited \<longrightarrow> snd x \<in> set visited"
      by (auto simp: filter_empty_conv)
    with "1.prems" r show ?thesis by force
  next
    case False
    then have r: "reach es visited = reach es (visited @ remdups (filter (\<lambda>c. c \<notin> set visited)
                    (map snd (filter (\<lambda>(p, c). p \<in> set visited) es))))"
      by (subst reach.simps) (simp add: Let_def)
    from "1.IH"[OF refl False] "1.prems" show ?thesis unfolding r by simp
  qed
qed

lemma reach_sound: "set (reach es visited) \<subseteq> (set es)\<^sup>* `` set visited"
proof (induction es visited rule: reach.induct)
  case (1 es visited)
  let ?new = "remdups (filter (\<lambda>c. c \<notin> set visited)
                    (map snd (filter (\<lambda>(p, c). p \<in> set visited) es)))"
  show ?case
  proof (cases "?new = []")
    case True
    then have "reach es visited = visited" by (subst reach.simps) (simp add: Let_def)
    then show ?thesis by auto
  next
    case False
    then have r: "reach es visited = reach es (visited @ ?new)"
      by (subst reach.simps) (simp add: Let_def)
    have "set (visited @ ?new) \<subseteq> (set es)\<^sup>* `` set visited"
    proof
      fix x
      assume "x \<in> set (visited @ ?new)"
      then consider "x \<in> set visited" | p where "p \<in> set visited" "(p, x) \<in> set es"
        by auto
      then show "x \<in> (set es)\<^sup>* `` set visited"
      proof cases
        case 1
        then show ?thesis by blast
      next
        case 2
        then have "(p, x) \<in> (set es)\<^sup>*" by blast
        with 2 show ?thesis by blast
      qed
    qed
    then have "(set es)\<^sup>* `` set (visited @ ?new) \<subseteq> (set es)\<^sup>* `` ((set es)\<^sup>* `` set visited)"
      by blast
    also have "\<dots> = (set es)\<^sup>* `` set visited"
      by (auto intro: rtrancl_trans)
    finally show ?thesis using "1.IH"[OF refl False] unfolding r by blast
  qed
qed

lemma reach_complete:
  assumes "(a, b) \<in> (set es)\<^sup>*" "a \<in> set (reach es visited)"
  shows "b \<in> set (reach es visited)"
  using assms by (induction rule: rtrancl_induct) (auto intro: reach_closed)

lemma reach_iff: "x \<in> set (reach es [a]) \<longleftrightarrow> (a, x) \<in> (set es)\<^sup>*"
proof
  assume "x \<in> set (reach es [a])"
  with reach_sound[of es "[a]"] show "(a, x) \<in> (set es)\<^sup>*" by auto
next
  assume "(a, x) \<in> (set es)\<^sup>*"
  moreover have "a \<in> set (reach es [a])" using reach_extends[of "[a]" es] by simp
  ultimately show "x \<in> set (reach es [a])" by (rule reach_complete)
qed

subsection \<open>Topological order\<close>

text \<open>
  A list is sequenced when each of its nodes has no producer at or after its own place.
\<close>

lemma ready_cong: "set r = set r' \<Longrightarrow> ready es r n = ready es r' n"
  by (simp add: ready_def)

lemma kahn_Inr:
  "kahn es remaining ordered = Inr order \<Longrightarrow>
   \<exists>picks. order = ordered @ picks \<and> mset picks = mset remaining \<and>
     (\<forall>xs n ys. picks = xs @ n # ys \<longrightarrow> ready es (n # ys) n)"
proof (induction es remaining ordered rule: kahn.induct)
  case (1 es remaining ordered)
  show ?case
  proof (cases "find (ready es remaining) remaining")
    case None
    with "1.prems" have "remaining = []" "order = ordered"
      by (auto simp: kahn.simps[of es remaining ordered] split: if_splits)
    then show ?thesis by simp
  next
    case (Some n)
    then have n: "n \<in> set remaining" "ready es remaining n"
      by (auto simp: find_Some_iff)
    from Some "1.prems" have "kahn es (remove1 n remaining) (ordered @ [n]) = Inr order"
      by (simp add: kahn.simps[of es remaining ordered])
    from "1.IH"[OF Some this] obtain picks where p:
      "order = (ordered @ [n]) @ picks" "mset picks = mset (remove1 n remaining)"
      "\<forall>xs m ys. picks = xs @ m # ys \<longrightarrow> ready es (m # ys) m"
      by blast
    have m: "mset (n # picks) = mset remaining" using p(2) n(1) by simp
    then have s: "set (n # picks) = set remaining" by (metis mset_eq_setD)
    have "ready es (m # ys) m" if "n # picks = xs @ m # ys" for xs m ys
    proof (cases xs)
      case Nil
      with that have "m = n" "ys = picks" by auto
      with n(2) s show ?thesis by (simp add: ready_def)
    next
      case (Cons a as)
      with that have "picks = as @ m # ys" by simp
      with p(3) show ?thesis by blast
    qed
    with p(1) m show ?thesis by (intro exI[of _ "n # picks"]) auto
  qed
qed

lemma sequenced_precedes:
  assumes seq: "\<forall>xs n ys. order = xs @ n # ys \<longrightarrow> ready es (n # ys) n"
    and e: "(p, c) \<in> set es" and p: "p \<in> set order" and c: "c \<in> set order"
  shows "\<exists>xs ys zs. order = xs @ p # ys @ c # zs"
proof -
  from c obtain us vs where o: "order = us @ c # vs" by (auto simp: in_set_conv_decomp)
  with seq have "ready es (c # vs) c" by blast
  with e have "p \<notin> set (c # vs)" by (auto simp: ready_def)
  with p o have "p \<in> set us" by auto
  then obtain xs ys where "us = xs @ p # ys" by (auto simp: in_set_conv_decomp)
  with o show ?thesis by auto
qed

lemma acyclic_has_ready:
  assumes "acyclic (set es)" "remaining \<noteq> []"
  shows "\<exists>n\<in>set remaining. ready es remaining n"
proof -
  have "wf (set es)" using assms(1) by (simp add: finite_acyclic_wf)
  moreover from assms(2) obtain x where "x \<in> set remaining" by (cases remaining) auto
  ultimately obtain z where "z \<in> set remaining"
    "\<And>y. (y, z) \<in> set es \<Longrightarrow> y \<notin> set remaining"
    by (rule wfE_min) blast
  then show ?thesis by (auto simp: ready_def)
qed

lemma kahn_acyclic_returns:
  "acyclic (set es) \<Longrightarrow> \<exists>order. kahn es remaining ordered = Inr order"
proof (induction es remaining ordered rule: kahn.induct)
  case (1 es remaining ordered)
  show ?case
  proof (cases "find (ready es remaining) remaining")
    case (Some n)
    from "1.IH"[OF Some "1.prems"] show ?thesis
      by (simp add: kahn.simps[of es remaining ordered] Some)
  next
    case None
    then have "\<not> (\<exists>n\<in>set remaining. ready es remaining n)"
      by (auto simp: find_None_iff)
    with acyclic_has_ready[OF "1.prems"] have "remaining = []" by blast
    then show ?thesis by (simp add: kahn.simps[of es "[]" ordered])
  qed
qed

lemma kahn_error: "kahn es remaining ordered = Inl e \<Longrightarrow> e = GraphError CycleDetected"
proof (induction es remaining ordered rule: kahn.induct)
  case (1 es remaining ordered)
  then show ?case
    by (cases "find (ready es remaining) remaining")
       (auto simp: kahn.simps[of es remaining ordered] split: if_splits)
qed

lemma first_position:
  "x \<notin> set us \<Longrightarrow> length (takeWhile (\<lambda>y. y \<noteq> x) (us @ x # vs)) = length us"
  by (induction us) auto

lemma precedes_acyclic:
  assumes d: "distinct order"
    and pre: "\<forall>(p, c)\<in>r. \<exists>xs ys zs. order = xs @ p # ys @ c # zs"
  shows "acyclic r"
proof -
  let ?f = "\<lambda>x. length (takeWhile (\<lambda>y. y \<noteq> x) order)"
  have "r \<subseteq> inv_image less_than ?f"
  proof
    fix e assume e: "e \<in> r"
    obtain p c where pc: "e = (p, c)" by (cases e)
    with e pre obtain xs ys zs where o: "order = xs @ p # ys @ c # zs" by fast
    with d have "p \<notin> set xs" "c \<notin> set (xs @ p # ys)" by auto
    then have "?f p = length xs" "?f c = length (xs @ p # ys)"
      unfolding o
      using first_position[of p xs "ys @ c # zs"] first_position[of c "xs @ p # ys" zs]
      by simp_all
    then show "e \<in> inv_image less_than ?f" using pc by simp
  qed
  moreover have "acyclic (inv_image less_than ?f)"
    by (intro wf_acyclic wf_inv_image) simp
  ultimately show ?thesis by (rule acyclic_subset[rotated])
qed

lemma kahn_picks_first:
  "distinct ids \<Longrightarrow> remaining = filter (\<lambda>m. m \<notin> set ordered) ids \<Longrightarrow>
   kahn es remaining ordered = Inr order \<Longrightarrow>
   order = xs @ n # ys \<Longrightarrow> length ordered \<le> length xs \<Longrightarrow>
   find (ready es (filter (\<lambda>m. m \<notin> set xs) ids)) (filter (\<lambda>m. m \<notin> set xs) ids) = Some n"
proof (induction es remaining ordered arbitrary: rule: kahn.induct)
  case (1 es remaining ordered)
  show ?case
  proof (cases "find (ready es remaining) remaining")
    case None
    with "1.prems"(3) have "order = ordered"
      by (auto simp: kahn.simps[of es remaining ordered] split: if_splits)
    with "1.prems"(4,5) show ?thesis by simp
  next
    case (Some k)
    from Some "1.prems"(3) have k: "kahn es (remove1 k remaining) (ordered @ [k]) = Inr order"
      by (simp add: kahn.simps[of es remaining ordered])
    from kahn_Inr[OF k] obtain picks where o: "order = (ordered @ [k]) @ picks" by blast
    have r: "remove1 k remaining = filter (\<lambda>m. m \<notin> set (ordered @ [k])) ids"
      using "1.prems"(1,2) by (auto simp: distinct_remove1_removeAll removeAll_filter_not_eq
          intro: filter_cong)
    show ?thesis
    proof (cases "length xs = length ordered")
      case True
      with o "1.prems"(4) have "xs = ordered" "n = k" by auto
      with Some "1.prems"(2) show ?thesis by simp
    next
      case False
      with "1.prems"(5) have "length (ordered @ [k]) \<le> length xs" by simp
      from "1.IH"[OF Some "1.prems"(1) r k "1.prems"(4) this] show ?thesis .
    qed
  qed
qed

text \<open>
  C4: on a DAG whose node identifiers are distinct and whose edges join known nodes,
  \<^verbatim>\<open>topological_order\<close> returns, when the edge relation is acyclic, a permutation of the node
  identifiers in which the producer of every edge comes before its consumer, and each
  node output is the first, in insertion order, of the nodes not yet output whose
  producers have all been output; when the edge relation has a cycle, it fails with
  \<^verbatim>\<open>GraphError\<close> (cycle detected).
\<close>

theorem topological_order_correct:
  assumes "distinct (node_ids d)"
    and "\<forall>(p, c)\<in>set (edges d). p \<in> set (node_ids d) \<and> c \<in> set (node_ids d)"
  shows "(acyclic (set (edges d)) \<longrightarrow>
           (\<exists>order. topological_order d = Inr order \<and>
              mset order = mset (node_ids d) \<and>
              (\<forall>(p, c)\<in>set (edges d). \<exists>xs ys zs. order = xs @ p # ys @ c # zs) \<and>
              (\<forall>xs n ys. order = xs @ n # ys \<longrightarrow>
                 find (ready (edges d) (filter (\<lambda>m. m \<notin> set xs) (node_ids d)))
                      (filter (\<lambda>m. m \<notin> set xs) (node_ids d)) = Some n))) \<and>
         (\<not> acyclic (set (edges d)) \<longrightarrow> topological_order d = Inl (GraphError CycleDetected))"
proof -
  have sound: "mset order = mset (node_ids d) \<and>
      (\<forall>(p, c)\<in>set (edges d). \<exists>xs ys zs. order = xs @ p # ys @ c # zs) \<and>
      (\<forall>xs n ys. order = xs @ n # ys \<longrightarrow>
         find (ready (edges d) (filter (\<lambda>m. m \<notin> set xs) (node_ids d)))
              (filter (\<lambda>m. m \<notin> set xs) (node_ids d)) = Some n)"
    if k: "kahn (edges d) (node_ids d) [] = Inr order" for order
  proof -
    from kahn_Inr[OF k] have m: "mset order = mset (node_ids d)"
      and seq: "\<forall>xs n ys. order = xs @ n # ys \<longrightarrow> ready (edges d) (n # ys) n"
      by auto
    from m have s: "set order = set (node_ids d)" by (metis mset_eq_setD)
    have "\<exists>xs ys zs. order = xs @ p # ys @ c # zs" if "(p, c) \<in> set (edges d)" for p c
      using sequenced_precedes[OF seq that] assms(2) that s by auto
    moreover have "find (ready (edges d) (filter (\<lambda>m. m \<notin> set xs) (node_ids d)))
              (filter (\<lambda>m. m \<notin> set xs) (node_ids d)) = Some n"
      if "order = xs @ n # ys" for xs n ys
      using kahn_picks_first[OF assms(1) _ k that] by simp
    ultimately show ?thesis using m by blast
  qed
  have 1: "\<exists>order. topological_order d = Inr order \<and>
              mset order = mset (node_ids d) \<and>
              (\<forall>(p, c)\<in>set (edges d). \<exists>xs ys zs. order = xs @ p # ys @ c # zs) \<and>
              (\<forall>xs n ys. order = xs @ n # ys \<longrightarrow>
                 find (ready (edges d) (filter (\<lambda>m. m \<notin> set xs) (node_ids d)))
                      (filter (\<lambda>m. m \<notin> set xs) (node_ids d)) = Some n)"
    if "acyclic (set (edges d))"
  proof -
    from kahn_acyclic_returns[OF that] obtain order
      where k: "kahn (edges d) (node_ids d) [] = Inr order" by blast
    with sound[OF k] show ?thesis by (simp add: topological_order_def)
  qed
  have 2: "topological_order d = Inl (GraphError CycleDetected)" if "\<not> acyclic (set (edges d))"
  proof (cases "kahn (edges d) (node_ids d) []")
    case (Inl e)
    with kahn_error[OF Inl] show ?thesis by (simp add: topological_order_def)
  next
    case (Inr order)
    from sound[OF Inr] have m: "mset order = mset (node_ids d)"
      and pre: "\<forall>(p, c)\<in>set (edges d). \<exists>xs ys zs. order = xs @ p # ys @ c # zs"
      by auto
    from m assms(1) have "distinct order" by (metis mset_eq_imp_distinct_iff)
    from precedes_acyclic[OF this pre] that show ?thesis by simp
  qed
  from 1 2 show ?thesis by blast
qed

lemma abc_nodes_eq:
  "abc_nodes =
     \<lparr>nodes = [(''A'', ''StepA''), (''B'', ''StepB''), (''C'', ''StepC'')], edges = []\<rparr>"
  by (simp add: abc_nodes_def add_node_def empty_dag_def)

lemma abc_dag_eq:
  "abc_dag =
     \<lparr>nodes = [(''A'', ''StepA''), (''B'', ''StepB''), (''C'', ''StepC'')],
      edges = [(''A'', ''B''), (''B'', ''C'')]\<rparr>"
  by (simp add: abc_dag_def abc_nodes_eq add_edge_def node_ids_def reach.simps Let_def)

lemma abc_dag_acyclic: "acyclic (set (edges abc_dag))"
proof -
  have "acyclic ({} :: (string \<times> string) set)" by (simp add: acyclic_def)
  then show ?thesis by (simp add: abc_dag_eq acyclic_insert rtrancl_insert)
qed

lemma cyclic_graph_cyclic: "\<not> acyclic (set (edges cyclic_graph))"
proof -
  have "(''B'', ''B'') \<in> (set (edges cyclic_graph))\<^sup>+"
    by (rule trancl_trans[of _ "''C''"]) (auto simp: cyclic_graph_def)
  then show ?thesis by (auto simp: acyclic_def)
qed

theorem topological_order_correct_witness:
  "distinct (node_ids abc_dag) \<and> acyclic (set (edges abc_dag)) \<and>
   topological_order abc_dag = Inr [''A'', ''B'', ''C''] \<and>
   (\<exists>order. topological_order abc_dag = Inr order \<and> mset order = mset (node_ids abc_dag) \<and>
      (\<forall>(p, c)\<in>set (edges abc_dag). \<exists>xs ys zs. order = xs @ p # ys @ c # zs)) \<and>
   distinct (node_ids cyclic_graph) \<and> \<not> acyclic (set (edges cyclic_graph)) \<and>
   topological_order cyclic_graph = Inl (GraphError CycleDetected)"
proof -
  have d1: "distinct (node_ids abc_dag)" and e1:
    "\<forall>(p, c)\<in>set (edges abc_dag). p \<in> set (node_ids abc_dag) \<and> c \<in> set (node_ids abc_dag)"
    by (simp_all add: abc_dag_eq node_ids_def)
  have d2: "distinct (node_ids cyclic_graph)" and e2:
    "\<forall>(p, c)\<in>set (edges cyclic_graph).
       p \<in> set (node_ids cyclic_graph) \<and> c \<in> set (node_ids cyclic_graph)"
    by (simp_all add: cyclic_graph_def node_ids_def)
  have t: "topological_order abc_dag = Inr [''A'', ''B'', ''C'']"
    by (simp add: abc_dag_eq topological_order_def node_ids_def kahn.simps ready_def)
  from topological_order_correct[OF d1 e1] topological_order_correct[OF d2 e2]
    abc_dag_acyclic cyclic_graph_cyclic d1 d2 t
  show ?thesis by blast
qed

subsection \<open>Adding edges\<close>

text \<open>
  C6: \<^verbatim>\<open>add_edge\<close> fails with \<^verbatim>\<open>GraphError\<close> when an endpoint is unknown or when the consumer
  already reaches the producer, which on an acyclic graph is exactly when the new edge
  would create a cycle; whenever it fails the DAG after the call is the DAG before it;
  otherwise it succeeds and adds the edge. In particular, adding \<^verbatim>\<open>C \<rightarrow> A\<close> to
  \<^verbatim>\<open>A \<rightarrow> B \<rightarrow> C\<close> fails with a cycle error and leaves the graph as it was.
\<close>

theorem add_edge_fails_unchanged:
  "(producer \<notin> set (node_ids d) \<or> consumer \<notin> set (node_ids d) \<or>
    (consumer, producer) \<in> (set (edges d))\<^sup>* \<longrightarrow>
      (\<exists>kind. fst (add_edge d producer consumer) = Inl (GraphError kind)) \<and>
      snd (add_edge d producer consumer) = d) \<and>
   (producer \<in> set (node_ids d) \<and> consumer \<in> set (node_ids d) \<and>
    (consumer, producer) \<notin> (set (edges d))\<^sup>* \<longrightarrow>
      fst (add_edge d producer consumer) = Inr () \<and>
      nodes (snd (add_edge d producer consumer)) = nodes d \<and>
      set (edges (snd (add_edge d producer consumer))) =
        insert (producer, consumer) (set (edges d))) \<and>
   (acyclic (set (edges d)) \<longrightarrow>
      ((consumer, producer) \<in> (set (edges d))\<^sup>* \<longleftrightarrow>
       \<not> acyclic (insert (producer, consumer) (set (edges d))))) \<and>
   add_edge abc_dag ''C'' ''A'' = (Inl (GraphError CycleDetected), abc_dag)"
proof -
  have "add_edge abc_dag ''C'' ''A'' = (Inl (GraphError CycleDetected), abc_dag)"
    by (simp add: abc_dag_eq add_edge_def node_ids_def reach.simps Let_def)
  then show ?thesis
    by (auto simp: add_edge_def reach_iff acyclic_insert)
qed

theorem add_edge_fails_unchanged_witness:
  "(''A'', ''C'') \<in> (set (edges abc_dag))\<^sup>* \<and>
   fst (add_edge abc_dag ''C'' ''A'') = Inl (GraphError CycleDetected) \<and>
   snd (add_edge abc_dag ''C'' ''A'') = abc_dag \<and>
   (\<exists>kind. fst (add_edge abc_dag ''A'' ''D'') = Inl (GraphError kind)) \<and>
   snd (add_edge abc_dag ''A'' ''D'') = abc_dag \<and>
   fst (add_edge abc_dag ''A'' ''C'') = Inr ()"
proof -
  have "''C'' \<in> set (reach (edges abc_dag) [''A''])"
    by (simp add: abc_dag_eq reach.simps Let_def)
  then have r: "(''A'', ''C'') \<in> (set (edges abc_dag))\<^sup>*"
    using reach_iff by blast
  have "''A'' \<notin> set (reach (edges abc_dag) [''C''])"
    by (simp add: abc_dag_eq reach.simps Let_def)
  then have n: "(''C'', ''A'') \<notin> (set (edges abc_dag))\<^sup>*"
    using reach_iff by blast
  have i: "''D'' \<notin> set (node_ids abc_dag)" "''A'' \<in> set (node_ids abc_dag)"
    "''C'' \<in> set (node_ids abc_dag)"
    by (simp_all add: abc_dag_eq node_ids_def)
  from add_edge_fails_unchanged[of "''C''" abc_dag "''A''"]
    add_edge_fails_unchanged[of "''A''" abc_dag "''D''"]
    add_edge_fails_unchanged[of "''A''" abc_dag "''C''"] r n i
  show ?thesis by simp
qed

subsection \<open>The DAG invariant\<close>

lemma upsert_keys: "fst ` set (upsert i r ns) = insert i (fst ` set ns)"
  by (induction ns) auto

lemma upsert_distinct: "distinct (map fst ns) \<Longrightarrow> distinct (map fst (upsert i r ns))"
  by (induction ns) (auto simp: upsert_keys)

lemma empty_dag_well_formed: "well_formed empty_dag"
  by (simp add: well_formed_def empty_dag_def node_ids_def acyclic_def)

lemma add_node_well_formed: "well_formed d \<Longrightarrow> well_formed (add_node d i spec_ref)"
  by (auto simp: well_formed_def add_node_def node_ids_def upsert_keys upsert_distinct)

lemma add_edge_well_formed:
  assumes "well_formed d"
  shows "well_formed (snd (add_edge d producer consumer))"
proof (cases "isl (fst (add_edge d producer consumer))")
  case True
  then have "snd (add_edge d producer consumer) = d"
    by (auto simp: add_edge_def split: if_splits)
  with assms show ?thesis by simp
next
  case False
  then have k: "producer \<in> set (node_ids d)" "consumer \<in> set (node_ids d)"
    "(consumer, producer) \<notin> (set (edges d))\<^sup>*"
    by (auto simp: add_edge_def reach_iff split: if_splits)
  then have e: "nodes (snd (add_edge d producer consumer)) = nodes d"
    "set (edges (snd (add_edge d producer consumer))) = insert (producer, consumer) (set (edges d))"
    by (auto simp: add_edge_def reach_iff)
  from assms k have "acyclic (insert (producer, consumer) (set (edges d)))"
    by (simp add: well_formed_def acyclic_insert)
  with assms k e show ?thesis
    by (auto simp: well_formed_def node_ids_def)
qed

lemma well_formed_topological_order:
  "well_formed d \<Longrightarrow> \<exists>order. topological_order d = Inr order \<and> mset order = mset (node_ids d)"
  using kahn_acyclic_returns[of "edges d" "node_ids d" "[]"] kahn_Inr[of "edges d" "node_ids d" "[]"]
  by (auto simp: well_formed_def topological_order_def)

section \<open>Properties of the dependency resolver\<close>

lemma better_trans:
  "better sc order a b \<Longrightarrow> better sc order b c \<Longrightarrow> better sc order a c"
  unfolding better_def by (elim disjE conjE) auto

lemma not_better_iff:
  "(\<not> better sc order a b) =
     (sc a < sc b \<or>
      (sc a = sc b \<and>
         (position order (fst b) < position order (fst a) \<or>
          (position order (fst a) = position order (fst b) \<and>
             logical_name (snd b) \<le> logical_name (snd a)))))"
  unfolding better_def by auto

lemma not_better_trans:
  "\<not> better sc order a b \<Longrightarrow> \<not> better sc order b c \<Longrightarrow> \<not> better sc order a c"
  unfolding not_better_iff by (elim disjE conjE) auto

lemma not_better_both:
  "\<not> better sc order a b \<Longrightarrow> \<not> better sc order b a \<Longrightarrow>
   sc a = sc b \<and> position order (fst a) = position order (fst b) \<and>
   logical_name (snd a) = logical_name (snd b)"
  unfolding not_better_iff by auto

lemma select_best_mem:
  "select_best sc order best cs = Some b \<Longrightarrow> best = Some b \<or> b \<in> set cs"
proof (induction cs arbitrary: best)
  case Nil
  then show ?case by simp
next
  case (Cons c cs)
  show ?case
  proof (cases best)
    case None
    with Cons.prems have "select_best sc order (Some c) cs = Some b" by simp
    from Cons.IH[OF this] show ?thesis by auto
  next
    case (Some a)
    show ?thesis
    proof (cases "better sc order c a")
      case True
      with Cons.prems Some have "select_best sc order (Some c) cs = Some b" by simp
      from Cons.IH[OF this] show ?thesis by auto
    next
      case False
      with Cons.prems Some have "select_best sc order (Some a) cs = Some b" by simp
      from Cons.IH[OF this] Some show ?thesis by auto
    qed
  qed
qed

lemma select_best_Some_start: "select_best sc order (Some a) cs \<noteq> None"
  by (induction cs arbitrary: a) auto

lemma select_best_None: "(select_best sc order best cs = None) = (best = None \<and> cs = [])"
proof (cases cs)
  case Nil
  then show ?thesis by simp
next
  case (Cons c cs')
  then show ?thesis using select_best_Some_start by (cases best) auto
qed

lemma select_best_max:
  "select_best sc order best cs = Some b \<Longrightarrow>
   (\<forall>c\<in>set cs. \<not> better sc order c b) \<and> (\<forall>a. best = Some a \<longrightarrow> \<not> better sc order a b)"
proof (induction cs arbitrary: best)
  case Nil
  then show ?case by (auto simp: better_def)
next
  case (Cons c cs)
  show ?case
  proof (cases best)
    case None
    with Cons.prems have "select_best sc order (Some c) cs = Some b" by simp
    from Cons.IH[OF this] show ?thesis using None by simp
  next
    case (Some a)
    show ?thesis
    proof (cases "better sc order c a")
      case True
      with Cons.prems Some have "select_best sc order (Some c) cs = Some b" by simp
      from Cons.IH[OF this] have 1: "\<forall>x\<in>set cs. \<not> better sc order x b"
        and 2: "\<not> better sc order c b" by auto
      from True 2 have "\<not> better sc order a b" using better_trans by blast
      with 1 2 Some show ?thesis by simp
    next
      case False
      with Cons.prems Some have "select_best sc order (Some a) cs = Some b" by simp
      from Cons.IH[OF this] have 1: "\<forall>x\<in>set cs. \<not> better sc order x b"
        and 2: "\<not> better sc order a b" by auto
      from False 2 have "\<not> better sc order c b" by (rule not_better_trans)
      with 1 2 Some show ?thesis by simp
    qed
  qed
qed

lemma select_best_order_independent:
  assumes "set cs = set cs'"
    and inj: "inj_on (\<lambda>c. (position order (fst c), logical_name (snd c))) (set cs)"
  shows "select_best sc order None cs = select_best sc order None cs'"
proof (cases "cs = []")
  case True
  with assms(1) have "cs' = []" by simp
  with True show ?thesis by simp
next
  case False
  with assms(1) have "cs' \<noteq> []" by auto
  with False obtain b b' where b: "select_best sc order None cs = Some b"
    and b': "select_best sc order None cs' = Some b'"
    using select_best_None[of sc order None cs] select_best_None[of sc order None cs']
    by auto
  from select_best_mem[OF b] select_best_mem[OF b'] assms(1)
  have m: "b \<in> set cs" "b' \<in> set cs" by auto
  from select_best_max[OF b] select_best_max[OF b'] m assms(1)
  have "\<not> better sc order b' b" "\<not> better sc order b b'" by auto
  from not_better_both[OF this]
  have "(position order (fst b'), logical_name (snd b')) =
        (position order (fst b), logical_name (snd b))" by simp
  with inj m have "b' = b" by (auto dest: inj_onD)
  with b b' show ?thesis by simp
qed

lemma resolve_step_bound:
  "(dn, p, on) \<in> set (fst (resolve_step w d registry order consumer deps)) \<Longrightarrow>
   \<exists>dep out. dep \<in> set deps \<and> logical_name dep = dn \<and> logical_name out = on \<and>
     resolve_dependency w d registry order consumer dep = Some (p, out)"
proof (induction deps)
  case Nil
  then show ?case by simp
next
  case (Cons dep deps)
  then show ?case
    by (fastforce split: prod.splits option.splits if_splits)
qed

lemma resolve_plan:
  assumes "resolve w d registry = Inr plan" "(consumer, bound) \<in> set plan"
  shows "\<exists>order sp. topological_order d = Inr order \<and> node_spec d registry consumer = Some sp \<and>
           bound = fst (resolve_step w d registry order consumer (dependencies sp))"
proof -
  from assms(1) obtain order where o: "topological_order d = Inr order"
    by (auto simp: resolve_def split: sum.splits)
  with assms(1) have f: "find (\<lambda>i. node_spec d registry i = None) order = None"
    by (auto simp: resolve_def split: option.splits)
  with assms(1) o have plan: "plan = map (\<lambda>i. (i, fst (resolve_step w d registry order i
        (case node_spec d registry i of None \<Rightarrow> [] | Some sp \<Rightarrow> dependencies sp)))) order"
    by (auto simp: resolve_def Let_def split: if_splits)
  with assms(2) have c: "consumer \<in> set order"
    and b: "bound = fst (resolve_step w d registry order consumer
        (case node_spec d registry consumer of None \<Rightarrow> [] | Some sp \<Rightarrow> dependencies sp))"
    by auto
  from f c obtain sp where "node_spec d registry consumer = Some sp"
    by (auto simp: find_None_iff)
  with o b show ?thesis by simp
qed

lemma resolve_dependency_best:
  assumes "resolve_dependency w d registry order consumer dep = Some b"
  shows "b \<in> set (candidates d registry order consumer) \<and>
    (\<forall>c\<in>set (candidates d registry order consumer).
       \<not> better (score w (producer_type d registry) dep) order c b)"
proof -
  from assms have s: "select_best (score w (producer_type d registry) dep) order None
      (candidates d registry order consumer) = Some b"
    by (auto simp: resolve_dependency_def Let_def split: option.splits if_splits)
  from select_best_mem[OF s] select_best_max[OF s] show ?thesis by auto
qed

lemma reach_set: "set (reach es visited) = (set es)\<^sup>* `` set visited"
proof
  show "set (reach es visited) \<subseteq> (set es)\<^sup>* `` set visited" by (rule reach_sound)
next
  show "(set es)\<^sup>* `` set visited \<subseteq> set (reach es visited)"
    using reach_complete[of _ _ es visited] reach_extends[of visited es] by blast
qed

lemma is_ancestor_edge_set:
  "set es = set es' \<Longrightarrow> is_ancestor es p c = is_ancestor es' p c"
  by (simp add: is_ancestor_def reach_set)

lemma kahn_edge_set:
  "set es = set es' \<Longrightarrow> kahn es remaining ordered = kahn es' remaining ordered"
proof (induction es remaining ordered rule: kahn.induct)
  case (1 es remaining ordered)
  have r: "ready es remaining = ready es' remaining"
    using "1.prems" by (auto simp: ready_def fun_eq_iff)
  show ?case
  proof (cases "find (ready es remaining) remaining")
    case None
    with r show ?thesis
      by (simp add: kahn.simps[of es remaining ordered] kahn.simps[of es' remaining ordered])
  next
    case (Some n)
    from "1.IH"[OF Some "1.prems"] Some r show ?thesis
      by (simp add: kahn.simps[of es remaining ordered] kahn.simps[of es' remaining ordered])
  qed
qed

lemma resolve_step_cong:
  "(\<And>dep. resolve_dependency w d registry order consumer dep =
           resolve_dependency w d' registry order consumer dep) \<Longrightarrow>
   resolve_step w d registry order consumer deps = resolve_step w d' registry order consumer deps"
  by (induction deps) simp_all

lemma resolve_edge_set:
  assumes n: "nodes d = nodes d'" and e: "set (edges d) = set (edges d')"
  shows "resolve w d registry = resolve w d' registry"
proof -
  have t: "topological_order d = topological_order d'"
    using n kahn_edge_set[OF e] by (simp add: topological_order_def node_ids_def)
  have ns: "node_spec d registry = node_spec d' registry"
    using n by (simp add: node_spec_def fun_eq_iff)
  have c: "candidates d registry order consumer = candidates d' registry order consumer"
    for order consumer
    using is_ancestor_edge_set[OF e] by (simp add: candidates_def ns)
  have pt: "producer_type d registry = producer_type d' registry"
    by (simp add: producer_type_def ns fun_eq_iff)
  have rd: "resolve_dependency w d registry order consumer dep =
      resolve_dependency w d' registry order consumer dep" for order consumer dep
    by (simp add: resolve_dependency_def c pt)
  have rs: "resolve_step w d registry order consumer deps =
      resolve_step w d' registry order consumer deps" for order consumer deps
    by (rule resolve_step_cong) (rule rd)
  show ?thesis
    unfolding resolve_def t ns rs n by (rule refl)
qed

text \<open>
  C5: \<^verbatim>\<open>resolve\<close> is a function of the DAG, the registry and the weights, so two runs on the
  same arguments give the same binding plan; the plan is moreover the same for two DAGs
  with the same node list and the same set of edges, in whatever order the edges were
  added. Every binding of a plan it returns is a
  candidate of its dependency that no other candidate beats: none has a higher score, and
  of those with the same score none has a producer earlier in topological order, nor the
  same producer place and a lexicographically smaller output logical name. The selection does
  not depend on the order in which the candidates are enumerated, as long as producer
  place and output logical name tell the candidates apart.
\<close>

theorem resolve_deterministic_tie_break:
  "(resolve w d registry = Inr plan \<and> (consumer, bound) \<in> set plan \<and>
    (dep_name, p, out_name) \<in> set bound \<longrightarrow>
      (\<exists>order sp dep out.
         topological_order d = Inr order \<and> node_spec d registry consumer = Some sp \<and>
         dep \<in> set (dependencies sp) \<and> logical_name dep = dep_name \<and>
         logical_name out = out_name \<and>
         (p, out) \<in> set (candidates d registry order consumer) \<and>
         (\<forall>c\<in>set (candidates d registry order consumer).
            score w (producer_type d registry) dep c
              \<le> score w (producer_type d registry) dep (p, out) \<and>
            (score w (producer_type d registry) dep c
               = score w (producer_type d registry) dep (p, out) \<longrightarrow>
               position order p \<le> position order (fst c) \<and>
               (position order p = position order (fst c) \<longrightarrow>
                  out_name \<le> logical_name (snd c)))))) \<and>
   (set cs = set cs' \<and>
    inj_on (\<lambda>c. (position order' (fst c), logical_name (snd c))) (set cs) \<longrightarrow>
      select_best sc order' None cs = select_best sc order' None cs') \<and>
   (nodes d = nodes d' \<and> set (edges d) = set (edges d') \<longrightarrow>
      resolve w d registry = resolve w d' registry)"
proof -
  have 1: "\<exists>order sp dep out.
         topological_order d = Inr order \<and> node_spec d registry consumer = Some sp \<and>
         dep \<in> set (dependencies sp) \<and> logical_name dep = dep_name \<and>
         logical_name out = out_name \<and>
         (p, out) \<in> set (candidates d registry order consumer) \<and>
         (\<forall>c\<in>set (candidates d registry order consumer).
            score w (producer_type d registry) dep c
              \<le> score w (producer_type d registry) dep (p, out) \<and>
            (score w (producer_type d registry) dep c
               = score w (producer_type d registry) dep (p, out) \<longrightarrow>
               position order p \<le> position order (fst c) \<and>
               (position order p = position order (fst c) \<longrightarrow>
                  out_name \<le> logical_name (snd c))))"
    if r: "resolve w d registry = Inr plan" and c: "(consumer, bound) \<in> set plan"
      and b: "(dep_name, p, out_name) \<in> set bound"
  proof -
    from resolve_plan[OF r c] obtain order sp where o: "topological_order d = Inr order"
      and sp: "node_spec d registry consumer = Some sp"
      and bd: "bound = fst (resolve_step w d registry order consumer (dependencies sp))"
      by blast
    from b bd resolve_step_bound[of dep_name p out_name w d registry order consumer "dependencies sp"]
    obtain dep out where dep: "dep \<in> set (dependencies sp)" "logical_name dep = dep_name"
      "logical_name out = out_name"
      and rd: "resolve_dependency w d registry order consumer dep = Some (p, out)"
      by blast
    from resolve_dependency_best[OF rd]
    have m: "(p, out) \<in> set (candidates d registry order consumer)"
      and nb: "\<forall>c\<in>set (candidates d registry order consumer).
         \<not> better (score w (producer_type d registry) dep) order c (p, out)"
      by auto
    have "\<forall>c\<in>set (candidates d registry order consumer).
            score w (producer_type d registry) dep c
              \<le> score w (producer_type d registry) dep (p, out) \<and>
            (score w (producer_type d registry) dep c
               = score w (producer_type d registry) dep (p, out) \<longrightarrow>
               position order p \<le> position order (fst c) \<and>
               (position order p = position order (fst c) \<longrightarrow>
                  out_name \<le> logical_name (snd c)))"
      using nb dep(3) by (auto simp: better_def not_less)
    with o sp dep m show ?thesis by blast
  qed
  from 1 select_best_order_independent[of cs cs' order' sc]
    resolve_edge_set[of d d' w registry]
  show ?thesis by blast
qed

lemma scenario_order: "topological_order scenario_dag = Inr [''A'', ''D'', ''B'', ''C'']"
  by (simp add: scenario_dag_def topological_order_def node_ids_def kahn.simps ready_def)

lemma scenario_node_spec:
  "node_spec scenario_dag scenario_registry ''A'' = Some (producer_spec ''Other'')"
  "node_spec scenario_dag scenario_registry ''D'' = Some (producer_spec ''Model'')"
  "node_spec scenario_dag scenario_registry ''B'' = Some (producer_spec ''Model'')"
  "node_spec scenario_dag scenario_registry ''C'' = Some consumer_spec"
  by (simp_all add: node_spec_def scenario_dag_def scenario_registry_def)

lemma scenario_ancestors:
  "is_ancestor (edges scenario_dag) ''A'' ''C''"
  "is_ancestor (edges scenario_dag) ''D'' ''C''"
  "is_ancestor (edges scenario_dag) ''B'' ''C''"
  "\<not> is_ancestor (edges scenario_dag) ''C'' ''C''"
  by (simp_all add: is_ancestor_def scenario_dag_def reach.simps Let_def)

lemma scenario_candidates:
  "candidates scenario_dag scenario_registry [''A'', ''D'', ''B'', ''C''] ''C'' =
     [(''A'', model_name_output), (''D'', model_name_output), (''B'', model_name_output)]"
  by (simp add: candidates_def scenario_ancestors scenario_node_spec producer_spec_def)

lemma scenario_keywords:
  "keyword_fraction (hd (dependencies consumer_spec)) model_name_output = 1"
  by (simp add: keyword_fraction_def consumer_spec_def keyword_matches_def model_name_output_def
        lower_def lower_char_def startswith_def)

lemma scenario_scores:
  "score scenario_weights (producer_type scenario_dag scenario_registry)
     (hd (dependencies consumer_spec)) (''A'', model_name_output) = 7 / 10"
  "score scenario_weights (producer_type scenario_dag scenario_registry)
     (hd (dependencies consumer_spec)) (''D'', model_name_output) = 1"
  "score scenario_weights (producer_type scenario_dag scenario_registry)
     (hd (dependencies consumer_spec)) (''B'', model_name_output) = 1"
  by (simp_all add: score_def scenario_keywords producer_type_def scenario_node_spec
        producer_spec_def scenario_weights_def)
     (simp_all add: consumer_spec_def model_name_output_def)

lemma scenario_positions:
  "position [''A'', ''D'', ''B'', ''C''] ''A'' = 0"
  "position [''A'', ''D'', ''B'', ''C''] ''D'' = 1"
  "position [''A'', ''D'', ''B'', ''C''] ''B'' = 2"
  by (simp_all add: position_def)

lemma scenario_resolve_dependency:
  "resolve_dependency scenario_weights scenario_dag scenario_registry [''A'', ''D'', ''B'', ''C'']
     ''C'' (hd (dependencies consumer_spec)) = Some (''D'', model_name_output)"
  by (simp add: resolve_dependency_def scenario_candidates scenario_scores scenario_positions
        better_def Let_def)
     (simp add: scenario_weights_def)

lemma scenario_resolve:
  "resolve scenario_weights scenario_dag scenario_registry =
     Inr [(''A'', []), (''D'', []), (''B'', []),
          (''C'', [(''model_name'', ''D'', ''model_name'')])]"
proof -
  have d: "dependencies consumer_spec = [hd (dependencies consumer_spec)]"
    "logical_name (hd (dependencies consumer_spec)) = ''model_name''"
    by (simp_all add: consumer_spec_def)
  have s: "resolve_step scenario_weights scenario_dag scenario_registry
      [''A'', ''D'', ''B'', ''C''] ''C'' (dependencies consumer_spec) =
      ([(''model_name'', ''D'', ''model_name'')], [])"
    by (subst d(1)) (simp add: scenario_resolve_dependency d(2) model_name_output_def)
  show ?thesis
    by (simp add: resolve_def scenario_order scenario_node_spec s producer_spec_def)
qed

theorem resolve_deterministic_tie_break_witness:
  "resolve scenario_weights scenario_dag scenario_registry =
     Inr [(''A'', []), (''D'', []), (''B'', []),
          (''C'', [(''model_name'', ''D'', ''model_name'')])] \<and>
   (\<exists>order sp dep out. topological_order scenario_dag = Inr order \<and>
      node_spec scenario_dag scenario_registry ''C'' = Some sp \<and>
      dep \<in> set (dependencies sp) \<and>
      (''D'', out) \<in> set (candidates scenario_dag scenario_registry order ''C'')) \<and>
   score scenario_weights (producer_type scenario_dag scenario_registry)
     (hd (dependencies consumer_spec)) (''B'', model_name_output) =
   score scenario_weights (producer_type scenario_dag scenario_registry)
     (hd (dependencies consumer_spec)) (''D'', model_name_output) \<and>
   select_best
     (score scenario_weights (producer_type scenario_dag scenario_registry)
        (hd (dependencies consumer_spec)))
     [''A'', ''D'', ''B'', ''C''] None [(''B'', model_name_output), (''D'', model_name_output)] =
   select_best
     (score scenario_weights (producer_type scenario_dag scenario_registry)
        (hd (dependencies consumer_spec)))
     [''A'', ''D'', ''B'', ''C''] None [(''D'', model_name_output), (''B'', model_name_output)] \<and>
   resolve scenario_weights scenario_dag scenario_registry =
   resolve scenario_weights
     (scenario_dag\<lparr>edges := [(''D'', ''C''), (''B'', ''C''), (''A'', ''C'')]\<rparr>) scenario_registry"
proof -
  have g: "nodes scenario_dag =
      nodes (scenario_dag\<lparr>edges := [(''D'', ''C''), (''B'', ''C''), (''A'', ''C'')]\<rparr>)"
    "set (edges scenario_dag) =
      set (edges (scenario_dag\<lparr>edges := [(''D'', ''C''), (''B'', ''C''), (''A'', ''C'')]\<rparr>))"
    by (auto simp: scenario_dag_def)
  have i: "inj_on (\<lambda>c. (position [''A'', ''D'', ''B'', ''C''] (fst c), logical_name (snd c)))
      (set [(''B'', model_name_output), (''D'', model_name_output)])"
    by (simp add: inj_on_def scenario_positions)
  have e: "set [(''B'', model_name_output), (''D'', model_name_output)] =
      set [(''D'', model_name_output), (''B'', model_name_output)]"
    by auto
  have m: "(''C'', [(''model_name'', ''D'', ''model_name'')]) \<in>
      set [(''A'', []), (''D'', []), (''B'', []), (''C'', [(''model_name'', ''D'', ''model_name'')])]"
    "(''model_name'', ''D'', ''model_name'') \<in> set [(''model_name'', ''D'', ''model_name'')]"
    by simp_all
  from resolve_deterministic_tie_break[where w = scenario_weights and d = scenario_dag
      and registry = scenario_registry
      and plan = "[(''A'', []), (''D'', []), (''B'', []),
          (''C'', [(''model_name'', ''D'', ''model_name'')])]"
      and consumer = "''C''" and bound = "[(''model_name'', ''D'', ''model_name'')]"
      and dep_name = "''model_name''" and p = "''D''" and out_name = "''model_name''"
      and cs = "[(''B'', model_name_output), (''D'', model_name_output)]"
      and cs' = "[(''D'', model_name_output), (''B'', model_name_output)]"
      and order' = "[''A'', ''D'', ''B'', ''C'']"
      and d' = "scenario_dag\<lparr>edges := [(''D'', ''C''), (''B'', ''C''), (''A'', ''C'')]\<rparr>"
      and sc = "score scenario_weights (producer_type scenario_dag scenario_registry)
        (hd (dependencies consumer_spec))"]
    scenario_resolve i e m g scenario_scores
  show ?thesis by (simp only:) blast
qed

section \<open>Properties of the registered specifications\<close>

lemma put_by_logical_name_names:
  "map logical_name (put_by_logical_name x ys) =
     (if logical_name x \<in> set (map logical_name ys) then map logical_name ys
      else map logical_name ys @ [logical_name x])"
  by (induction ys) auto

lemma put_by_logical_name_distinct:
  "distinct (map logical_name ys) \<Longrightarrow> distinct (map logical_name (put_by_logical_name x ys))"
  by (simp add: put_by_logical_name_names)

lemma foldl_put_distinct:
  "distinct (map logical_name kept) \<Longrightarrow>
   distinct (map logical_name (foldl (\<lambda>kept x. put_by_logical_name x kept) kept xs))"
  by (induction xs arbitrary: kept) (simp_all add: put_by_logical_name_distinct)

lemma keyed_by_logical_name_distinct: "distinct (map logical_name (keyed_by_logical_name xs))"
  unfolding keyed_by_logical_name_def by (rule foldl_put_distinct) simp

lemma put_by_logical_name_fresh:
  "logical_name x \<notin> set (map logical_name ys) \<Longrightarrow> put_by_logical_name x ys = ys @ [x]"
  by (induction ys) auto

lemma foldl_put_fresh:
  "distinct (map logical_name (kept @ xs)) \<Longrightarrow>
   foldl (\<lambda>kept x. put_by_logical_name x kept) kept xs = kept @ xs"
proof (induction xs arbitrary: kept)
  case Nil
  then show ?case by simp
next
  case (Cons x xs)
  then have f: "put_by_logical_name x kept = kept @ [x]"
    by (intro put_by_logical_name_fresh) auto
  from Cons.prems have "distinct (map logical_name ((kept @ [x]) @ xs))" by simp
  from Cons.IH[OF this] f show ?case by simp
qed

lemma keyed_by_logical_name_id:
  "distinct (map logical_name xs) \<Longrightarrow> keyed_by_logical_name xs = xs"
  unfolding keyed_by_logical_name_def using foldl_put_fresh[of "[]" xs] by simp

lemma StepSpecification_init_distinct:
  "distinct (map logical_name (dependencies (StepSpecification_init st nt deps outs))) \<and>
   distinct (map logical_name (outputs (StepSpecification_init st nt deps outs)))"
  by (simp add: StepSpecification_init_def keyed_by_logical_name_distinct)

lemma register_all_invariant:
  "register_all registry regs = Inr registry' \<Longrightarrow>
   \<forall>sp\<in>ran registry. distinct (map logical_name (dependencies sp)) \<and>
                     distinct (map logical_name (outputs sp)) \<Longrightarrow>
   \<forall>sp\<in>ran registry'. distinct (map logical_name (dependencies sp)) \<and>
                      distinct (map logical_name (outputs sp))"
proof (induction registry regs rule: register_all.induct)
  case (1 registry)
  then show ?case by simp
next
  case (2 registry key st nt deps outs rest)
  from "2.prems"(1) have fresh: "registry key = None"
    and r: "register registry key (StepSpecification_init st nt deps outs) =
        Inr (registry(key \<mapsto> StepSpecification_init st nt deps outs))"
    and rest: "register_all (registry(key \<mapsto> StepSpecification_init st nt deps outs)) rest =
        Inr registry'"
    by (auto simp: register_def split: option.splits)
  have "\<forall>sp\<in>ran (registry(key \<mapsto> StepSpecification_init st nt deps outs)).
      distinct (map logical_name (dependencies sp)) \<and> distinct (map logical_name (outputs sp))"
    using "2.prems"(2) fresh StepSpecification_init_distinct[of st nt deps outs]
    by (auto simp: ran_def split: if_splits)
  from "2.IH"[OF r rest this] show ?case .
qed

lemma batch_transform_calibration_spec_fields:
  "dependencies (BATCH_TRANSFORM_CALIBRATION_SPEC g) =
     [\<lparr>logical_name = ''model_name'', data_type = ''String'',
       description = ''SageMaker model name from a model step'',
       dependency_type = CUSTOM_PROPERTY, required = True,
       compatible_sources = [''PytorchModel'', ''XgboostModel''],
       semantic_keywords = [''model'', ''name'', ''model_name'', ''ModelName'']\<rparr>,
      \<lparr>logical_name = ''processed_data'', data_type = ''S3Uri'',
       description =
         ''Processed calibration data for batch transform from preprocessing step'',
       dependency_type = PROCESSING_OUTPUT, required = True,
       compatible_sources = [''TabularPreprocessing-Calibration''],
       semantic_keywords =
         [''calibration'', ''data'', ''features'', ''preprocessed'', ''tabular'',
          ''input_data'', ''model_input_data'']\<rparr>]"
  "outputs (BATCH_TRANSFORM_CALIBRATION_SPEC g) =
     [\<lparr>logical_name = ''transform_output'', data_type = ''S3Uri'',
       description = ''S3 location of the batch transform output'',
       output_type = CUSTOM_PROPERTY,
       property_path = ''properties.TransformOutput.S3OutputPath''\<rparr>]"
  by (simp_all add: BATCH_TRANSFORM_CALIBRATION_SPEC_def StepSpecification_init_def
        keyed_by_logical_name_def)

text \<open>
  C7: every specification the constructor yields, and so every specification that the
  setup phase has registered and \<^verbatim>\<open>get\<close> returns, has pairwise distinct dependency logical
  names and pairwise distinct output logical names; each of its dependencies is a
  \<^verbatim>\<open>DependencySpec\<close>, with its required flag, compatible sources, semantic keywords and data
  type. In particular \<^verbatim>\<open>BATCH_TRANSFORM_CALIBRATION_SPEC\<close> declares exactly two dependencies,
  both required, \<^verbatim>\<open>model_name\<close> of type \<^verbatim>\<open>String\<close> and \<^verbatim>\<open>processed_data\<close> of type \<^verbatim>\<open>S3Uri\<close>,
  with distinct logical names, and exactly one output, \<^verbatim>\<open>transform_output\<close> of type
  \<^verbatim>\<open>S3Uri\<close>, with its access path.
\<close>

theorem registered_specifications_invariants:
  "(register_all Map.empty regs = Inr registry \<and> registry_get registry st = Inr sp \<longrightarrow>
      distinct (map logical_name (dependencies sp)) \<and>
      distinct (map logical_name (outputs sp))) \<and>
   distinct (map logical_name (dependencies (StepSpecification_init st' nt deps outs))) \<and>
   distinct (map logical_name (outputs (StepSpecification_init st' nt deps outs))) \<and>
   (let s = BATCH_TRANSFORM_CALIBRATION_SPEC get_spec_step_type in
      distinct (map logical_name (dependencies s)) \<and>
      distinct (map logical_name (outputs s)) \<and>
      map (\<lambda>d. (logical_name d, data_type d, required d)) (dependencies s) =
        [(''model_name'', ''String'', True), (''processed_data'', ''S3Uri'', True)] \<and>
      map compatible_sources (dependencies s) =
        [[''PytorchModel'', ''XgboostModel''], [''TabularPreprocessing-Calibration'']] \<and>
      map semantic_keywords (dependencies s) =
        [[''model'', ''name'', ''model_name'', ''ModelName''],
         [''calibration'', ''data'', ''features'', ''preprocessed'', ''tabular'',
          ''input_data'', ''model_input_data'']] \<and>
      map (\<lambda>d. (logical_name d, data_type d, property_path d)) (outputs s) =
        [(''transform_output'', ''S3Uri'', ''properties.TransformOutput.S3OutputPath'')])"
proof -
  have 1: "distinct (map logical_name (dependencies sp)) \<and>
      distinct (map logical_name (outputs sp))"
    if r: "register_all Map.empty regs = Inr registry" and g: "registry_get registry st = Inr sp"
  proof -
    from g have "sp \<in> ran registry"
      by (auto simp: registry_get_def ran_def split: option.splits)
    with register_all_invariant[OF r] show ?thesis by simp
  qed
  show ?thesis
    using 1 StepSpecification_init_distinct[of st' nt deps outs]
    by (simp add: batch_transform_calibration_spec_fields)
qed

theorem registered_specifications_invariants_witness:
  "register_all Map.empty
     [(''BatchTransform-Calibration'', ''BatchTransform-Calibration'', INTERNAL,
       dependencies (BATCH_TRANSFORM_CALIBRATION_SPEC (\<lambda>n. n)),
       outputs (BATCH_TRANSFORM_CALIBRATION_SPEC (\<lambda>n. n)))] =
     Inr [''BatchTransform-Calibration'' \<mapsto> BATCH_TRANSFORM_CALIBRATION_SPEC (\<lambda>n. n)] \<and>
   registry_get [''BatchTransform-Calibration'' \<mapsto> BATCH_TRANSFORM_CALIBRATION_SPEC (\<lambda>n. n)]
     ''BatchTransform-Calibration'' = Inr (BATCH_TRANSFORM_CALIBRATION_SPEC (\<lambda>n. n)) \<and>
   distinct (map logical_name (dependencies (BATCH_TRANSFORM_CALIBRATION_SPEC (\<lambda>n. n)))) \<and>
   distinct (map logical_name (outputs (BATCH_TRANSFORM_CALIBRATION_SPEC (\<lambda>n. n)))) \<and>
   map logical_name
     (outputs (StepSpecification_init ''Model'' SOURCE [] [model_name_output, model_name_output])) =
     [''model_name'']"
proof -
  let ?b = "BATCH_TRANSFORM_CALIBRATION_SPEC (\<lambda>n. n)"
  have i: "StepSpecification_init ''BatchTransform-Calibration'' INTERNAL
      (dependencies ?b) (outputs ?b) = ?b"
    by (simp add: batch_transform_calibration_spec_fields)
       (simp add: BATCH_TRANSFORM_CALIBRATION_SPEC_def StepSpecification_init_def
          keyed_by_logical_name_def)
  have r: "register_all Map.empty
     [(''BatchTransform-Calibration'', ''BatchTransform-Calibration'', INTERNAL,
       dependencies ?b, outputs ?b)] = Inr [''BatchTransform-Calibration'' \<mapsto> ?b]"
    by (simp add: register_def i)
  have g: "registry_get [''BatchTransform-Calibration'' \<mapsto> ?b] ''BatchTransform-Calibration'' =
      Inr ?b"
    by (simp add: registry_get_def)
  have m: "map logical_name
     (outputs (StepSpecification_init ''Model'' SOURCE [] [model_name_output, model_name_output])) =
     [''model_name'']"
    by (simp add: StepSpecification_init_def keyed_by_logical_name_def model_name_output_def)
  from registered_specifications_invariants[where
      regs = "[(''BatchTransform-Calibration'', ''BatchTransform-Calibration'', INTERNAL,
       dependencies ?b, outputs ?b)]"
      and registry = "[''BatchTransform-Calibration'' \<mapsto> ?b]"
      and st = "''BatchTransform-Calibration''" and sp = ?b] r g m
  show ?thesis by simp
qed

end
